theory Spec2Isabelle
  imports Complex_Main "HOL-Library.Word" "HOL-Library.Monad_Syntax"
begin

section \<open>JavaScript values\<close>

text \<open>
  The bytes of a \<^verbatim>\<open>Uint8Array\<close> are 8-bit words. A JavaScript string is a sequence of
  UTF-16 code units; a code unit is modelled by its number. The exceptions that the
  built-in operations used by the sources can throw are the constructors of \<open>js_error\<close>;
  \<open>ConnectionRejected\<close> stands for the reason of a rejected connection promise.
\<close>

type_synonym byte = "8 word"
type_synonym jsstring = "nat list"

datatype js_error = InvalidCharacterError | RangeError | NotSupportedError | ConnectionRejected

section \<open>The built-ins \<^verbatim>\<open>btoa\<close> and \<^verbatim>\<open>atob\<close>\<close>

text \<open>
  \<^verbatim>\<open>btoa\<close> and \<^verbatim>\<open>atob\<close> belong to the browser, not to the repository. They are modelled
  after the HTML standard: \<^verbatim>\<open>btoa\<close> throws on a code unit above 255 and otherwise
  base64-encodes the code units as bytes, with padding; \<^verbatim>\<open>atob\<close> is the standard's
  forgiving base64 decoding (ASCII whitespace is removed, padding is optional, a
  character outside the alphabet or a length of 1 modulo 4 throws).
\<close>

definition b64_alphabet :: jsstring where
  "b64_alphabet =
     map of_char ''ABCDEFGHIJKLMNOPQRSTUVWXYZabcdefghijklmnopqrstuvwxyz0123456789+/''"

definition b64char :: "nat \<Rightarrow> nat" where
  "b64char n = b64_alphabet ! n"

fun index_of :: "'a \<Rightarrow> 'a list \<Rightarrow> nat option" where
  "index_of c [] = None"
| "index_of c (x # xs) =
     (if c = x then Some 0 else map_option Suc (index_of c xs))"

definition b64index :: "nat \<Rightarrow> nat option" where
  "b64index c = index_of c b64_alphabet"

text \<open>Three bytes give four 6-bit values; one or two trailing bytes give two or three.\<close>

fun b64_sextets :: "nat list \<Rightarrow> nat list" where
  "b64_sextets (a # b # c # rest) =
     [a div 4, (a mod 4) * 16 + b div 16, (b mod 16) * 4 + c div 64, c mod 64]
       @ b64_sextets rest"
| "b64_sextets [a, b] = [a div 4, (a mod 4) * 16 + b div 16, (b mod 16) * 4]"
| "b64_sextets [a] = [a div 4, (a mod 4) * 16]"
| "b64_sextets [] = []"

definition b64_padding :: "nat \<Rightarrow> jsstring" where
  "b64_padding n = replicate ((3 - n mod 3) mod 3) (of_char CHR ''='')"

definition btoa :: "jsstring \<Rightarrow> js_error + jsstring" where
  "btoa s =
     (if list_ex (\<lambda>c. 255 < c) s then Inl InvalidCharacterError
      else Inr (map b64char (b64_sextets s) @ b64_padding (length s)))"

text \<open>
  Four 6-bit values give three bytes; a final group of two or three values gives one or
  two bytes, the left-over bits being discarded.
\<close>

fun b64_bytes :: "nat list \<Rightarrow> nat list" where
  "b64_bytes (p # q # r # s # rest) =
     [p * 4 + q div 16, (q mod 16) * 16 + r div 4, (r mod 4) * 64 + s] @ b64_bytes rest"
| "b64_bytes [p, q, r] = [p * 4 + q div 16, (q mod 16) * 16 + r div 4]"
| "b64_bytes [p, q] = [p * 4 + q div 16]"
| "b64_bytes [p] = []"
| "b64_bytes [] = []"

definition ascii_whitespace :: "nat \<Rightarrow> bool" where
  "ascii_whitespace c \<longleftrightarrow> c = 9 \<or> c = 10 \<or> c = 12 \<or> c = 13 \<or> c = 32"

definition ends_with :: "'a list \<Rightarrow> 'a list \<Rightarrow> bool" where
  "ends_with s t \<longleftrightarrow> length t \<le> length s \<and> drop (length s - length t) s = t"

definition strip_padding :: "jsstring \<Rightarrow> jsstring" where
  "strip_padding s =
     (if length s mod 4 = 0 then
        (if ends_with s (map of_char ''=='') then take (length s - 2) s
         else if ends_with s (map of_char ''='') then take (length s - 1) s
         else s)
      else s)"

definition atob :: "jsstring \<Rightarrow> js_error + jsstring" where
  "atob s =
     (let d = strip_padding (filter (\<lambda>c. \<not> ascii_whitespace c) s) in
      if length d mod 4 = 1 then Inl InvalidCharacterError
      else if list_ex (\<lambda>c. b64index c = None) d then Inl InvalidCharacterError
      else Inr (b64_bytes (map (\<lambda>c. the (b64index c)) d)))"

section \<open>helpers.ts: the binary/text codec\<close>

text \<open>
  \<^verbatim>\<open>encode\<close> appends \<^verbatim>\<open>String.fromCharCode(bytes[i])\<close> for \<open>i = 0, ..., len - 1\<close> and
  passes the string to \<^verbatim>\<open>btoa\<close>.
\<close>

function encode_loop :: "byte list \<Rightarrow> nat \<Rightarrow> jsstring \<Rightarrow> jsstring" where
  "encode_loop bytes i binary =
     (if i < length bytes then encode_loop bytes (i + 1) (binary @ [unat (bytes ! i)])
      else binary)"
  by pat_completeness auto
termination
  by (relation "measure (\<lambda>(bytes, i, binary). length bytes - i)") auto

definition encode :: "byte list \<Rightarrow> js_error + jsstring" where
  "encode bytes = btoa (encode_loop bytes 0 [])"

text \<open>
  \<^verbatim>\<open>decode\<close> calls \<^verbatim>\<open>atob\<close>, allocates a zeroed \<^verbatim>\<open>Uint8Array\<close> of the string's length and
  stores \<^verbatim>\<open>charCodeAt(i)\<close> at index \<open>i\<close>; the store keeps the low 8 bits.
\<close>

function decode_loop :: "jsstring \<Rightarrow> nat \<Rightarrow> byte list \<Rightarrow> byte list" where
  "decode_loop binaryString i bytes =
     (if i < length binaryString
      then decode_loop binaryString (i + 1) (bytes[i := word_of_nat (binaryString ! i)])
      else bytes)"
  by pat_completeness auto
termination
  by (relation "measure (\<lambda>(binaryString, i, bytes). length binaryString - i)") auto

definition decode :: "jsstring \<Rightarrow> js_error + byte list" where
  "decode base64 =
     (case atob base64 of
        Inl e \<Rightarrow> Inl e
      | Inr binaryString \<Rightarrow>
          Inr (decode_loop binaryString 0 (replicate (length binaryString) 0)))"

section \<open>JavaScript numbers and typed arrays\<close>

text \<open>
  A JavaScript number that is finite is modelled by the rational it denotes; \<open>NaN\<close> is a
  value of its own, because reading a typed array out of range gives \<^verbatim>\<open>undefined\<close>, and
  \<^verbatim>\<open>undefined / 32768.0\<close> is \<open>NaN\<close>. The PCM conversions multiply and divide by
  \<open>32768 = 2 ^ 15\<close>, which binary floating point does exactly, so that the model agrees
  with the code on every finite sample. The other arithmetic of the sources (the header
  fields, the clock and the durations) is taken over the rationals: the rounding of
  doubles is not modelled, and no theorem below depends on it. The conversion of a number
  to a \<open>k\<close>-bit integer truncates towards zero and keeps the low \<open>k\<close> bits, and \<open>NaN\<close>
  becomes 0.
\<close>

datatype sample = Num rat | NaN

definition trunc :: "rat \<Rightarrow> int" where
  "trunc x = (if 0 \<le> x then \<lfloor>x\<rfloor> else \<lceil>x\<rceil>)"

definition ToUint :: "nat \<Rightarrow> rat \<Rightarrow> nat" where
  "ToUint k x = nat (trunc x mod 2 ^ k)"

definition ToInt16 :: "sample \<Rightarrow> 16 word" where
  "ToInt16 v = (case v of NaN \<Rightarrow> 0 | Num x \<Rightarrow> word_of_int (trunc x))"

text \<open>
  A typed array over the buffer of another one reads the same bytes; the platform is
  little-endian, as every browser platform is. \<^verbatim>\<open>new Int16Array(buffer)\<close> throws a
  \<^verbatim>\<open>RangeError\<close> when the byte length of the buffer is odd.
\<close>

definition int16_bytes :: "16 word \<Rightarrow> byte list" where
  "int16_bytes w = [word_of_nat (unat w mod 256), word_of_nat (unat w div 256)]"

fun int16_of_bytes :: "byte list \<Rightarrow> 16 word list" where
  "int16_of_bytes (lo # hi # rest) = word_of_nat (unat lo + 256 * unat hi) # int16_of_bytes rest"
| "int16_of_bytes [b] = []"
| "int16_of_bytes [] = []"

definition new_Int16Array :: "byte list \<Rightarrow> js_error + 16 word list" where
  "new_Int16Array buffer =
     (if odd (length buffer) then Inl RangeError else Inr (int16_of_bytes buffer))"

text \<open>
  A \<^verbatim>\<open>Uint8Array\<close> is a view of an \<^verbatim>\<open>ArrayBuffer\<close>: the bytes of the buffer, the offset
  of the view and its length. Its elements are the bytes of the buffer from the offset on.
  \<open>whole bytes\<close> is an array that spans its buffer, which is what
  \<^verbatim>\<open>new Uint8Array(len)\<close> and \<^verbatim>\<open>new Uint8Array(buffer)\<close> create: the result of \<^verbatim>\<open>decode\<close>
  and the array of the capture callback are such arrays. A function that reads only the
  elements and the length of its argument (\<^verbatim>\<open>encode\<close>, \<^verbatim>\<open>createWavBlob\<close>) takes the
  elements; \<^verbatim>\<open>decodeAudioData\<close> reads \<^verbatim>\<open>data.buffer\<close> and takes the view.
\<close>

record Uint8Array =
  arrayBuffer :: "byte list"
  byte_offset :: nat
  byte_length :: nat

definition elements :: "Uint8Array \<Rightarrow> byte list" where
  "elements a = take (byte_length a) (drop (byte_offset a) (arrayBuffer a))"

definition whole :: "byte list \<Rightarrow> Uint8Array" where
  "whole bytes = \<lparr>arrayBuffer = bytes, byte_offset = 0, byte_length = length bytes\<rparr>"

section \<open>helpers.ts: \<^verbatim>\<open>decodeAudioData\<close>\<close>

text \<open>
  An \<^verbatim>\<open>AudioBuffer\<close> has a number of channels, a length in sample frames, a sample rate and
  one \<^verbatim>\<open>Float32Array\<close> per channel. \<^verbatim>\<open>createBuffer\<close> belongs to the Web Audio API: its
  length argument is converted to an unsigned 32-bit integer, and it throws a
  \<^verbatim>\<open>NotSupportedError\<close> when an argument is zero or outside its nominal range. The model
  takes the ranges that the standard obliges every implementation to support (1 to 32
  channels, 8000 to 96000 Hz); the theorems below stay inside them.
\<close>

record AudioBuffer =
  numberOfChannels :: nat
  buffer_length :: nat
  sampleRate :: nat
  channels :: "sample list list"

definition duration :: "AudioBuffer \<Rightarrow> rat" where
  "duration b = of_nat (buffer_length b) / of_nat (sampleRate b)"

definition createBuffer :: "nat \<Rightarrow> rat \<Rightarrow> nat \<Rightarrow> js_error + AudioBuffer" where
  "createBuffer numChannels len rate =
     (let n = ToUint 32 len in
      if numChannels = 0 \<or> 32 < numChannels \<or> n = 0 \<or> rate < 8000 \<or> 96000 < rate
      then Inl NotSupportedError
      else Inr \<lparr>numberOfChannels = numChannels, buffer_length = n, sampleRate = rate,
                 channels = replicate numChannels (replicate n (Num 0))\<rparr>)"

text \<open>
  \<^verbatim>\<open>dataInt16[k] / 32768.0\<close>: the element read as a signed integer, or \<open>NaN\<close> when \<open>k\<close> is
  out of range.
\<close>

definition int16_sample :: "16 word list \<Rightarrow> nat \<Rightarrow> sample" where
  "int16_sample dataInt16 k =
     (if k < length dataInt16 then Num (of_int (sint (dataInt16 ! k)) / 32768) else NaN)"

text \<open>
  The inner loop runs while \<open>i < frameCount\<close>, where \<open>frameCount\<close> is the quotient
  \<^verbatim>\<open>dataInt16.length / numChannels\<close> and need not be an integer. A store to a typed array
  at an index beyond its length is ignored, which is what \<open>xs[i := v]\<close> does.
\<close>

function fill_channel ::
  "16 word list \<Rightarrow> nat \<Rightarrow> rat \<Rightarrow> nat \<Rightarrow> nat \<Rightarrow> sample list \<Rightarrow> sample list" where
  "fill_channel dataInt16 numChannels frameCount channel i channelData =
     (if of_nat i < frameCount
      then fill_channel dataInt16 numChannels frameCount channel (i + 1)
             (channelData[i := int16_sample dataInt16 (i * numChannels + channel)])
      else channelData)"
  by pat_completeness auto
termination
proof (relation "measure (\<lambda>(d, n, frameCount, c, i, cd). nat \<lceil>frameCount\<rceil> - i)")
  fix dataInt16 :: "16 word list" and numChannels channel i :: nat
    and frameCount :: rat and channelData :: "sample list"
  assume "of_nat i < frameCount"
  then have "of_int (int i) < frameCount" by simp
  then have "int i < \<lceil>frameCount\<rceil>" by (simp only: less_ceiling_iff)
  then have "i < nat \<lceil>frameCount\<rceil>" by simp
  then show "((dataInt16, numChannels, frameCount, channel, i + 1,
                channelData[i := int16_sample dataInt16 (i * numChannels + channel)]),
              (dataInt16, numChannels, frameCount, channel, i, channelData))
             \<in> measure (\<lambda>(d, n, frameCount, c, i, cd). nat \<lceil>frameCount\<rceil> - i)"
    by simp
qed simp

function fill_channels ::
  "16 word list \<Rightarrow> nat \<Rightarrow> rat \<Rightarrow> nat \<Rightarrow> sample list list \<Rightarrow> sample list list" where
  "fill_channels dataInt16 numChannels frameCount channel buffer =
     (if channel < numChannels
      then fill_channels dataInt16 numChannels frameCount (channel + 1)
             (buffer[channel :=
                fill_channel dataInt16 numChannels frameCount channel 0 (buffer ! channel)])
      else buffer)"
  by pat_completeness auto
termination
  by (relation "measure (\<lambda>(d, numChannels, f, channel, b). numChannels - channel)") auto

text \<open>
  \<^verbatim>\<open>new Int16Array(data.buffer)\<close> reads the whole buffer under \<open>data\<close>, whatever the offset
  and the length of the view.
\<close>

definition decodeAudioData :: "Uint8Array \<Rightarrow> nat \<Rightarrow> nat \<Rightarrow> js_error + AudioBuffer" where
  "decodeAudioData data rate numChannels =
     (case new_Int16Array (arrayBuffer data) of
        Inl e \<Rightarrow> Inl e
      | Inr dataInt16 \<Rightarrow>
          (let frameCount = of_nat (length dataInt16) / of_nat numChannels in
           case createBuffer numChannels frameCount rate of
             Inl e \<Rightarrow> Inl e
           | Inr buffer \<Rightarrow>
               Inr (buffer\<lparr>channels :=
                      fill_channels dataInt16 numChannels frameCount 0 (channels buffer)\<rparr>)))"

text \<open>
  The result as the specification describes it: sample \<open>i\<close> of channel \<open>c\<close> is the
  interleaved sample \<open>i * channelCount + c\<close> divided by 32768, for every complete frame.
\<close>

definition deinterleaved :: "16 word list \<Rightarrow> nat \<Rightarrow> sample list list" where
  "deinterleaved dataInt16 channelCount =
     map (\<lambda>c. map (\<lambda>i. Num (of_int (sint (dataInt16 ! (i * channelCount + c))) / 32768))
                 [0..<length dataInt16 div channelCount])
       [0..<channelCount]"

section \<open>helpers.ts: \<^verbatim>\<open>createWavBlob\<close>\<close>

text \<open>
  The \<^verbatim>\<open>DataView\<close> setters convert the number to an unsigned integer of their width and
  store its bytes, least significant first (every call in the source passes
  \<^verbatim>\<open>littleEndian = true\<close>). A store that does not fit in the buffer throws a
  \<^verbatim>\<open>RangeError\<close>, which is the value \<open>None\<close> here.
\<close>

definition setUint8 :: "byte list \<Rightarrow> nat \<Rightarrow> rat \<Rightarrow> byte list option" where
  "setUint8 view byteOffset v =
     (if byteOffset + 1 \<le> length view
      then Some (view[byteOffset := word_of_nat (ToUint 8 v)])
      else None)"

definition setUint16 :: "byte list \<Rightarrow> nat \<Rightarrow> rat \<Rightarrow> byte list option" where
  "setUint16 view byteOffset v =
     (if byteOffset + 2 \<le> length view
      then Some (view[byteOffset := word_of_nat (ToUint 16 v),
                      byteOffset + 1 := word_of_nat (ToUint 16 v div 256)])
      else None)"

definition setUint32 :: "byte list \<Rightarrow> nat \<Rightarrow> rat \<Rightarrow> byte list option" where
  "setUint32 view byteOffset v =
     (if byteOffset + 4 \<le> length view
      then Some (view[byteOffset := word_of_nat (ToUint 32 v),
                      byteOffset + 1 := word_of_nat (ToUint 32 v div 256),
                      byteOffset + 2 := word_of_nat (ToUint 32 v div 65536),
                      byteOffset + 3 := word_of_nat (ToUint 32 v div 16777216)])
      else None)"

function writeString_loop :: "byte list \<Rightarrow> nat \<Rightarrow> jsstring \<Rightarrow> nat \<Rightarrow> byte list option" where
  "writeString_loop view offset str i =
     (if i < length str
      then do {
        view \<leftarrow> setUint8 view (offset + i) (of_nat (str ! i));
        writeString_loop view offset str (i + 1)
      }
      else Some view)"
  by pat_completeness auto
termination
  by (relation "measure (\<lambda>(view, offset, str, i). length str - i)") auto

definition writeString :: "byte list \<Rightarrow> nat \<Rightarrow> string \<Rightarrow> byte list option" where
  "writeString view offset str = writeString_loop view offset (map of_char str) 0"

text \<open>The last loop of \<^verbatim>\<open>createWavBlob\<close>: \<^verbatim>\<open>view.setUint8(44 + i, pcmAsUint8[i])\<close>.\<close>

function write_pcm :: "byte list \<Rightarrow> byte list \<Rightarrow> nat \<Rightarrow> byte list option" where
  "write_pcm view pcmAsUint8 i =
     (if i < length pcmAsUint8
      then do {
        view \<leftarrow> setUint8 view (44 + i) (of_nat (unat (pcmAsUint8 ! i)));
        write_pcm view pcmAsUint8 (i + 1)
      }
      else Some view)"
  by pat_completeness auto
termination
  by (relation "measure (\<lambda>(view, pcmAsUint8, i). length pcmAsUint8 - i)") auto

text \<open>The result is the content of the blob: the bytes of the buffer behind the view.\<close>

definition createWavBlob :: "byte list \<Rightarrow> rat \<Rightarrow> rat \<Rightarrow> rat \<Rightarrow> byte list option" where
  "createWavBlob pcmData rate numChannels bitsPerSample =
     (let dataSize = length pcmData;
          byteRate = rate * numChannels * (bitsPerSample / 8);
          blockAlign = numChannels * (bitsPerSample / 8)
      in do {
        view \<leftarrow> Some (replicate (44 + dataSize) 0);
        view \<leftarrow> writeString view 0 ''RIFF'';
        view \<leftarrow> setUint32 view 4 (of_nat (36 + dataSize));
        view \<leftarrow> writeString view 8 ''WAVE'';
        view \<leftarrow> writeString view 12 ''fmt '';
        view \<leftarrow> setUint32 view 16 16;
        view \<leftarrow> setUint16 view 20 1;
        view \<leftarrow> setUint16 view 22 numChannels;
        view \<leftarrow> setUint32 view 24 rate;
        view \<leftarrow> setUint32 view 28 byteRate;
        view \<leftarrow> setUint16 view 32 blockAlign;
        view \<leftarrow> setUint16 view 34 bitsPerSample;
        view \<leftarrow> writeString view 36 ''data'';
        view \<leftarrow> setUint32 view 40 (of_nat dataSize);
        write_pcm view pcmData 0
      })"

text \<open>
  The header as the specification lays it out, field by field; \<open>le16\<close> and \<open>le32\<close> are
  the little-endian bytes of a number converted to an unsigned integer of that width.
\<close>

definition le16 :: "rat \<Rightarrow> byte list" where
  "le16 v = [word_of_nat (ToUint 16 v), word_of_nat (ToUint 16 v div 256)]"

definition le32 :: "rat \<Rightarrow> byte list" where
  "le32 v = [word_of_nat (ToUint 32 v), word_of_nat (ToUint 32 v div 256),
             word_of_nat (ToUint 32 v div 65536), word_of_nat (ToUint 32 v div 16777216)]"

definition ascii :: "string \<Rightarrow> byte list" where
  "ascii str = map (\<lambda>c. word_of_nat (of_char c)) str"

definition wav_header :: "nat \<Rightarrow> rat \<Rightarrow> rat \<Rightarrow> rat \<Rightarrow> byte list" where
  "wav_header payloadLength rate channelCount bitsPerSample =
     ascii ''RIFF'' @ le32 (of_nat (36 + payloadLength)) @ ascii ''WAVE''
     @ ascii ''fmt '' @ le32 16 @ le16 1 @ le16 channelCount @ le32 rate
     @ le32 (rate * channelCount * (bitsPerSample / 8))
     @ le16 (channelCount * (bitsPerSample / 8)) @ le16 bitsPerSample
     @ ascii ''data'' @ le32 (of_nat payloadLength)"

section \<open>LiveConvoPanel: the capture callback\<close>

text \<open>
  \<^verbatim>\<open>new Uint8Array(new Int16Array(inputData.map(f => f * 32768)).buffer)\<close>: the samples
  are scaled, each product is converted to a 16-bit integer, and the bytes of the integers
  are read in memory order. \<open>input_pcm\<close> is what the specification calls
  \<open>floatToInt16\<close>.
\<close>

definition scale :: "sample \<Rightarrow> sample" where
  "scale f = (case f of NaN \<Rightarrow> NaN | Num x \<Rightarrow> Num (x * 32768))"

definition input_pcm :: "sample list \<Rightarrow> byte list" where
  "input_pcm inputData = concat (map int16_bytes (map ToInt16 (map scale inputData)))"

text \<open>
  What the specification calls clamping, for comparison: a value outside the range of a
  16-bit signed integer is replaced by the nearest bound of the range.
\<close>

definition clamp16 :: "int \<Rightarrow> int" where
  "clamp16 n = max (- 32768) (min 32767 n)"

section \<open>LiveConvoPanel: the state of the component\<close>

text \<open>
  The React state (\<open>isLive\<close>, \<open>error\<close>, \<open>transcription\<close>, \<open>currentTurn\<close>) and the
  refs of the component are the fields of \<open>panel\<close>. Browser objects (the session, the
  media stream, the audio contexts, the script processor) are handles. Two fields are not
  in the source: \<open>calls\<close> records, in order, the calls that the component makes on
  browser objects, so that what is stopped, closed or started can be observed, and
  \<open>created\<close> counts the buffer sources created so far, which gives each new source
  object its identity.
\<close>

type_synonym handle = nat

record turn =
  user :: string
  model :: string

record source =
  source_id :: nat
  buffer :: AudioBuffer

datatype call =
    SessionClose handle
  | SendRealtimeInput handle jsstring
  | TrackStop handle
  | Disconnect handle
  | ContextClose handle
  | SourceStart source rat
  | SourceStop source

datatype 'a promise = Fulfilled 'a | Rejected

record panel =
  isLive :: bool
  error :: "string option"
  transcription :: "turn list"
  currentTurn :: turn
  sessionPromiseRef :: "handle promise option"
  inputAudioContextRef :: "handle option"
  outputAudioContextRef :: "handle option"
  mediaStreamRef :: "handle option"
  scriptProcessorRef :: "handle option"
  nextStartTimeRef :: rat
  audioSourcesRef :: "source list"
  created :: nat
  calls :: "call list"

definition initial :: panel where
  "initial =
     \<lparr>isLive = False, error = None, transcription = [],
      currentTurn = \<lparr>user = [], model = []\<rparr>,
      sessionPromiseRef = None, inputAudioContextRef = None, outputAudioContextRef = None,
      mediaStreamRef = None, scriptProcessorRef = None, nextStartTimeRef = 0,
      audioSourcesRef = [], created = 0, calls = []\<rparr>"

text \<open>
  A function defined in the body of the component sees the state of the render that
  defined it. \<open>render s\<close> is what a render in state \<open>s\<close> binds to the constants \<open>isLive\<close>
  and \<open>currentTurn\<close>; \<open>startConversation\<close>, and the callbacks it creates, read these and
  not the state at the time they run.
\<close>

record render =
  r_isLive :: bool
  r_currentTurn :: turn

definition render :: "panel \<Rightarrow> render" where
  "render s = \<lparr>r_isLive = isLive s, r_currentTurn = currentTurn s\<rparr>"

text \<open>What the browser answers to one \<open>startConversation\<close>.\<close>

record env =
  getUserMedia :: "handle option"
  inputContext :: handle
  outputContext :: handle
  processor :: handle
  connect :: "handle promise"

definition call :: "call \<Rightarrow> panel \<Rightarrow> panel" where
  "call c s = s\<lparr>calls := calls s @ [c]\<rparr>"

text \<open>\<^verbatim>\<open>ref.current?.method()\<close>: nothing happens when the ref holds \<^verbatim>\<open>null\<close>.\<close>

definition optional_call :: "(handle \<Rightarrow> call) \<Rightarrow> handle option \<Rightarrow> panel \<Rightarrow> panel" where
  "optional_call method ref s = (case ref of None \<Rightarrow> s | Some h \<Rightarrow> call (method h) s)"

section \<open>LiveConvoPanel: \<^verbatim>\<open>stopConversation\<close> and \<^verbatim>\<open>startConversation\<close>\<close>

text \<open>
  \<^verbatim>\<open>await sessionPromiseRef.current\<close> throws when the promise is rejected, and the rest
  of the function does not run. The stream of \<^verbatim>\<open>getUserMedia({ audio: true })\<close> has one
  track.
\<close>

definition stopConversation :: "panel \<Rightarrow> js_error + panel" where
  "stopConversation s =
     (case sessionPromiseRef s of
        Some Rejected \<Rightarrow> Inl ConnectionRejected
      | current \<Rightarrow>
          (let s = (case current of
                      Some (Fulfilled session) \<Rightarrow>
                        (call (SessionClose session) s)\<lparr>sessionPromiseRef := None\<rparr>
                    | _ \<Rightarrow> s);
               s = optional_call TrackStop (mediaStreamRef s) s;
               s = optional_call Disconnect (scriptProcessorRef s) s;
               s = optional_call ContextClose (inputAudioContextRef s) s;
               s = optional_call ContextClose (outputAudioContextRef s) s;
               s = fold (\<lambda>source. call (SourceStop source)) (audioSourcesRef s) s;
               s = s\<lparr>audioSourcesRef := []\<rparr>
           in Inr (s\<lparr>isLive := False\<rparr>)))"

definition startConversation :: "env \<Rightarrow> render \<Rightarrow> panel \<Rightarrow> panel" where
  "startConversation e r s =
     (if r_isLive r then s
      else
        (let s = s\<lparr>isLive := True, error := None, transcription := [],
                   currentTurn := \<lparr>user = [], model = []\<rparr>\<rparr>
         in case getUserMedia e of
              None \<Rightarrow>
                s\<lparr>error := Some ''Could not access microphone. Please grant permission and try again.'',
                  isLive := False\<rparr>
            | Some stream \<Rightarrow>
                s\<lparr>mediaStreamRef := Some stream,
                  inputAudioContextRef := Some (inputContext e),
                  outputAudioContextRef := Some (outputContext e),
                  nextStartTimeRef := 0,
                  sessionPromiseRef := Some (connect e)\<rparr>))"

definition onopen :: "env \<Rightarrow> panel \<Rightarrow> panel" where
  "onopen e s = s\<lparr>scriptProcessorRef := Some (processor e)\<rparr>"

definition onaudioprocess :: "sample list \<Rightarrow> panel \<Rightarrow> js_error + panel" where
  "onaudioprocess inputData s =
     (case encode (input_pcm inputData) of
        Inl e \<Rightarrow> Inl e
      | Inr data \<Rightarrow>
          Inr (case sessionPromiseRef s of
                 Some (Fulfilled session) \<Rightarrow> call (SendRealtimeInput session data) s
               | _ \<Rightarrow> s))"

section \<open>LiveConvoPanel: \<^verbatim>\<open>onmessage\<close>\<close>

text \<open>
  The fields of a server message that the callback reads; \<open>audioData\<close> is
  \<^verbatim>\<open>serverContent.modelTurn.parts[0].inlineData.data\<close>.
\<close>

record message =
  inputTranscription :: "string option"
  outputTranscription :: "string option"
  turnComplete :: bool
  audioData :: "jsstring option"
  interrupted :: bool

text \<open>
  Lines 98 to 103: the updater functions passed to \<^verbatim>\<open>setCurrentTurn\<close> run on the latest
  state.
\<close>

definition accumulate :: "message \<Rightarrow> panel \<Rightarrow> panel" where
  "accumulate msg s =
     (let s = (case inputTranscription msg of
                 None \<Rightarrow> s
               | Some text \<Rightarrow>
                   s\<lparr>currentTurn := (currentTurn s)\<lparr>user := user (currentTurn s) @ text\<rparr>\<rparr>);
          s = (case outputTranscription msg of
                 None \<Rightarrow> s
               | Some text \<Rightarrow>
                   s\<lparr>currentTurn := (currentTurn s)\<lparr>model := model (currentTurn s) @ text\<rparr>\<rparr>)
      in s)"

text \<open>
  Lines 104 to 107: the record appended by \<^verbatim>\<open>prev => [...prev, currentTurn]\<close> is the
  constant \<open>currentTurn\<close> of the render that defined the callback.
\<close>

definition complete_turn :: "render \<Rightarrow> message \<Rightarrow> panel \<Rightarrow> panel" where
  "complete_turn r msg s =
     (if turnComplete msg
      then s\<lparr>transcription := transcription s @ [r_currentTurn r],
             currentTurn := \<lparr>user = [], model = []\<rparr>\<rparr>
      else s)"

text \<open>
  Lines 112 to 120, for a decoded buffer: \<open>now\<close> is \<^verbatim>\<open>outputCtx.currentTime\<close>. The decoding
  between line 112 and line 114 touches no state.
\<close>

definition schedule :: "rat \<Rightarrow> AudioBuffer \<Rightarrow> panel \<Rightarrow> panel" where
  "schedule now audioBuffer s =
     (let s = s\<lparr>nextStartTimeRef := max (nextStartTimeRef s) now\<rparr>;
          source = \<lparr>source_id = created s, buffer = audioBuffer\<rparr>;
          s = s\<lparr>created := created s + 1\<rparr>;
          s = call (SourceStart source (nextStartTimeRef s)) s;
          s = s\<lparr>nextStartTimeRef := nextStartTimeRef s + duration audioBuffer\<rparr>
      in s\<lparr>audioSourcesRef := audioSourcesRef s @ [source]\<rparr>)"

text \<open>The listener of the \<^verbatim>\<open>ended\<close> event of a source.\<close>

definition ended :: "source \<Rightarrow> panel \<Rightarrow> panel" where
  "ended source s = s\<lparr>audioSourcesRef := removeAll source (audioSourcesRef s)\<rparr>"

text \<open>
  Lines 109 to 121: an empty string and a missing output context skip the block. The
  array that \<^verbatim>\<open>decode\<close> returns spans its buffer.
\<close>

definition play_audio :: "rat \<Rightarrow> message \<Rightarrow> panel \<Rightarrow> js_error + panel" where
  "play_audio now msg s =
     (case audioData msg of
        None \<Rightarrow> Inr s
      | Some data \<Rightarrow>
          if data \<noteq> [] \<and> outputAudioContextRef s \<noteq> None
          then (case decode data of
                  Inl e \<Rightarrow> Inl e
                | Inr bytes \<Rightarrow>
                    (case decodeAudioData (whole bytes) 24000 1 of
                       Inl e \<Rightarrow> Inl e
                     | Inr audioBuffer \<Rightarrow> Inr (schedule now audioBuffer s)))
          else Inr s)"

text \<open>Lines 123 to 127.\<close>

definition interrupt :: "panel \<Rightarrow> panel" where
  "interrupt s =
     (let s = fold (\<lambda>source. call (SourceStop source)) (audioSourcesRef s) s;
          s = s\<lparr>audioSourcesRef := []\<rparr>
      in s\<lparr>nextStartTimeRef := 0\<rparr>)"

text \<open>
  The callback as a whole. An exception of the decoding leaves the callback before the
  interruption is looked at.
\<close>

definition onmessage :: "render \<Rightarrow> rat \<Rightarrow> message \<Rightarrow> panel \<Rightarrow> js_error + panel" where
  "onmessage r now msg s =
     (case play_audio now msg (complete_turn r msg (accumulate msg s)) of
        Inl e \<Rightarrow> Inl e
      | Inr s \<Rightarrow> Inr (if interrupted msg then interrupt s else s))"

text \<open>The calls of \<^verbatim>\<open>source.start\<close> and \<^verbatim>\<open>source.stop\<close> made so far.\<close>

fun started :: "call list \<Rightarrow> (source \<times> rat) list" where
  "started [] = []"
| "started (SourceStart source t # cs) = (source, t) # started cs"
| "started (c # cs) = started cs"

fun stopped :: "call list \<Rightarrow> source list" where
  "stopped [] = []"
| "stopped (SourceStop source # cs) = source # stopped cs"
| "stopped (c # cs) = stopped cs"

fun closed_contexts :: "call list \<Rightarrow> handle list" where
  "closed_contexts [] = []"
| "closed_contexts (ContextClose h # cs) = h # closed_contexts cs"
| "closed_contexts (c # cs) = closed_contexts cs"

section \<open>A concrete session\<close>

text \<open>
  The values used to run the component on concrete inputs: a browser that grants the
  microphone and whose connection succeeds, the component after its first
  \<open>startConversation\<close> and the \<open>onopen\<close> that follows, messages, and the buffer that
  \<open>decodeAudioData\<close> returns for \<open>n\<close> frames of silence. The callbacks of that session
  were created by the first render, \<open>render initial\<close>.
\<close>

definition browser :: env where
  "browser = \<lparr>getUserMedia = Some 1, inputContext = 2, outputContext = 3, processor = 4,
              connect = Fulfilled 5\<rparr>"

definition live :: panel where
  "live = onopen browser (startConversation browser (render initial) initial)"

definition empty_message :: message where
  "empty_message = \<lparr>inputTranscription = None, outputTranscription = None,
                     turnComplete = False, audioData = None, interrupted = False\<rparr>"

definition audio_message :: "string \<Rightarrow> message" where
  "audio_message base64 = empty_message\<lparr>audioData := Some (map of_char base64)\<rparr>"

definition silence :: "nat \<Rightarrow> AudioBuffer" where
  "silence n = \<lparr>numberOfChannels = 1, buffer_length = n, sampleRate = 24000,
                channels = [replicate n (Num 0)]\<rparr>"

declare encode_loop.simps [simp del] decode_loop.simps [simp del]
  fill_channel.simps [simp del] fill_channels.simps [simp del]
  writeString_loop.simps [simp del] write_pcm.simps [simp del]

section \<open>The codec: decoding an encoding gives the bytes back\<close>

lemma encode_loop_eq: "encode_loop bytes i binary = binary @ map unat (drop i bytes)"
proof (induction bytes i binary rule: encode_loop.induct)
  case (1 bytes i binary)
  show ?case
  proof (cases "i < length bytes")
    case True
    then have "drop i bytes = bytes ! i # drop (Suc i) bytes"
      by (simp add: Cons_nth_drop_Suc)
    with True 1 show ?thesis by (simp add: encode_loop.simps [of bytes i])
  next
    case False
    then show ?thesis by (simp add: encode_loop.simps [of bytes i])
  qed
qed

lemma decode_loop_eq:
  "length bytes = length str \<Longrightarrow>
   decode_loop str i bytes = take i bytes @ map word_of_nat (drop i str)"
proof (induction str i bytes rule: decode_loop.induct)
  case (1 str i bytes)
  show ?case
  proof (cases "i < length str")
    case True
    then have d: "drop i str = str ! i # drop (Suc i) str"
      by (simp add: Cons_nth_drop_Suc)
    have "decode_loop str i bytes = decode_loop str (i + 1) (bytes[i := word_of_nat (str ! i)])"
      using True by (simp add: decode_loop.simps [of str i])
    also have "\<dots> = take (i + 1) (bytes[i := word_of_nat (str ! i)])
                      @ map word_of_nat (drop (i + 1) str)"
      using 1 True by simp
    also have "take (i + 1) (bytes[i := word_of_nat (str ! i)])
                 = take i bytes @ [word_of_nat (str ! i)]"
      using True 1(2) by (simp add: take_Suc_conv_app_nth)
    finally show ?thesis using d by simp
  next
    case False
    with 1(2) show ?thesis by (simp add: decode_loop.simps [of str i])
  qed
qed

lemma index_of_nth: "distinct xs \<Longrightarrow> n < length xs \<Longrightarrow> index_of (xs ! n) xs = Some n"
proof (induction xs arbitrary: n)
  case Nil
  then show ?case by simp
next
  case (Cons x xs)
  then show ?case by (cases n) auto
qed

lemma b64_alphabet_distinct: "distinct b64_alphabet"
  by (simp add: b64_alphabet_def)

lemma b64_alphabet_length: "length b64_alphabet = 64"
  by (simp add: b64_alphabet_def)

lemma b64index_b64char: "n < 64 \<Longrightarrow> b64index (b64char n) = Some n"
  by (simp add: b64index_def b64char_def index_of_nth b64_alphabet_distinct b64_alphabet_length)

lemma b64_bytes_sextets:
  "\<forall>b \<in> set bs. b < 256 \<Longrightarrow> b64_bytes (b64_sextets bs) = bs"
proof (induction bs rule: b64_sextets.induct)
  case (1 a b c rest)
  have "a < 256" "b < 256" "c < 256" using 1(2) by auto
  then have "[a div 4 * 4 + ((a mod 4) * 16 + b div 16) div 16,
     (((a mod 4) * 16 + b div 16) mod 16) * 16 + ((b mod 16) * 4 + c div 64) div 4,
     (((b mod 16) * 4 + c div 64) mod 4) * 64 + c mod 64] = [a, b, c]"
    by auto
  with 1 show ?case by simp
next
  case (2 a b)
  then show ?case by auto
next
  case (3 a)
  then show ?case by auto
next
  case 4
  then show ?case by simp
qed

lemma b64_sextets_length:
  "length (b64_sextets bs) + (3 - length bs mod 3) mod 3 = 4 * ((length bs + 2) div 3)"
proof (induction bs rule: b64_sextets.induct)
  case (1 a b c rest)
  have "(5 + length rest) div 3 = Suc (Suc (Suc (length rest)) div 3)" by arith
  with 1 show ?case by simp
qed simp_all

lemma b64_sextets_length_mod: "length (b64_sextets bs) mod 4 \<noteq> 1"
proof (induction bs rule: b64_sextets.induct)
  case (1 a b c rest)
  then show ?case by (simp add: mod_Suc)
qed simp_all

lemma b64_sextets_bound:
  "\<forall>b \<in> set bs. b < 256 \<Longrightarrow> \<forall>x \<in> set (b64_sextets bs). x < 64"
proof (induction bs rule: b64_sextets.induct)
  case (1 a b c rest)
  have "a < 256" "b < 256" "c < 256" using 1(2) by auto
  then have "a div 4 < 64" "(a mod 4) * 16 + b div 16 < 64"
    "(b mod 16) * 4 + c div 64 < 64" "c mod 64 < 64"
    by auto
  with 1 show ?case by simp
next
  case (2 a b)
  then have "a < 256" "b < 256" by auto
  then have "a div 4 < 64" "(a mod 4) * 16 + b div 16 < 64" "(b mod 16) * 4 < 64"
    by auto
  then show ?case by simp
next
  case (3 a)
  then have "a < 256" by auto
  then have "a div 4 < 64" "(a mod 4) * 16 < 64"
    by auto
  then show ?case by simp
qed simp

lemma b64char_in_alphabet: "n < 64 \<Longrightarrow> b64char n \<in> set b64_alphabet"
  by (simp add: b64char_def b64_alphabet_length)

lemma alphabet_not_pad: "c \<in> set b64_alphabet \<Longrightarrow> c \<noteq> 61"
  by (auto simp: b64_alphabet_def)

lemma alphabet_not_space: "c \<in> set b64_alphabet \<Longrightarrow> \<not> ascii_whitespace c"
  by (auto simp: b64_alphabet_def ascii_whitespace_def)

lemma ends_with_iff: "ends_with s t \<longleftrightarrow> (\<exists>p. s = p @ t)"
proof
  assume "ends_with s t"
  then have "s = take (length s - length t) s @ t"
    by (metis append_take_drop_id ends_with_def)
  then show "\<exists>p. s = p @ t" ..
next
  assume "\<exists>p. s = p @ t"
  then show "ends_with s t" by (auto simp: ends_with_def)
qed

lemma strip_padding_out:
  assumes "61 \<notin> set body" and "length (body @ pad) mod 4 = 0"
    and "pad = [] \<or> (body \<noteq> [] \<and> (pad = [61] \<or> pad = [61, 61]))"
  shows "strip_padding (body @ pad) = body"
proof -
  have no1: "\<not> ends_with body [61]"
    using assms(1) by (auto simp: ends_with_iff)
  have no2: "\<not> ends_with body [61, 61]"
    using assms(1) by (auto simp: ends_with_iff)
  have no3: "\<not> ends_with (body @ [61]) [61, 61]"
  proof
    assume "ends_with (body @ [61]) [61, 61]"
    then obtain p where "body @ [61] = p @ [61, 61]" by (auto simp: ends_with_iff)
    then have "body @ [61] = (p @ [61]) @ [61]" by simp
    then have "body = p @ [61]" by (simp only: append1_eq_conv)
    with assms(1) show False by simp
  qed
  from assms(3) consider "pad = []" | "pad = [61]" | "pad = [61, 61]" by blast
  then show ?thesis
  proof cases
    case 1
    with no1 no2 show ?thesis by (simp add: strip_padding_def)
  next
    case 2
    have "ends_with (body @ [61]) [61]" by (auto simp: ends_with_iff)
    with 2 no3 assms(2) show ?thesis by (simp add: strip_padding_def)
  next
    case 3
    have "ends_with (body @ [61, 61]) [61, 61]" by (auto simp: ends_with_iff)
    with 3 assms(2) show ?thesis by (simp add: strip_padding_def)
  qed
qed

lemma b64index_map_b64char:
  "\<forall>x \<in> set xs. x < 64 \<Longrightarrow> map (\<lambda>c. the (b64index c)) (map b64char xs) = xs"
  by (induction xs) (simp_all add: b64index_b64char)

lemma pad_cases: "b64_padding n = [] \<or> b64_padding n = [61] \<or> b64_padding n = [61, 61]"
proof -
  have "n mod 3 = 0 \<or> n mod 3 = 1 \<or> n mod 3 = 2" by arith
  then show ?thesis by (auto simp: b64_padding_def numeral_2_eq_2)
qed

lemma pad_body: "b64_padding (length bs) \<noteq> [] \<Longrightarrow> map b64char (b64_sextets bs) \<noteq> []"
  by (cases bs rule: b64_sextets.cases) (simp_all add: b64_padding_def)

lemma out_len: "length (map b64char (b64_sextets bs) @ b64_padding (length bs)) mod 4 = 0"
  using b64_sextets_length [of bs] by (simp add: b64_padding_def)

lemma pad_not_space: "c \<in> set (b64_padding n) \<Longrightarrow> \<not> ascii_whitespace c"
  by (simp add: b64_padding_def ascii_whitespace_def)

lemma no_wide_char: "\<forall>b \<in> set bs. b < 256 \<Longrightarrow> \<not> list_ex (\<lambda>c. 255 < c) (bs :: nat list)"
  by (induction bs) simp_all

lemma all_valid:
  "\<forall>x \<in> set xs. x < 64 \<Longrightarrow> \<not> list_ex (\<lambda>c. b64index c = None) (map b64char xs)"
  by (induction xs) (simp_all add: b64index_b64char)

lemma no_whitespace:
  "\<forall>c \<in> set body. c \<in> set b64_alphabet \<Longrightarrow>
   filter (\<lambda>c. \<not> ascii_whitespace c) (body @ b64_padding n) = body @ b64_padding n"
  by (rule filter_True) (auto dest: alphabet_not_space pad_not_space)

lemma atob_btoa:
  assumes "\<forall>b \<in> set bs. b < 256"
  shows "btoa bs = Inr (map b64char (b64_sextets bs) @ b64_padding (length bs))"
    and "atob (map b64char (b64_sextets bs) @ b64_padding (length bs)) = Inr bs"
proof -
  let ?body = "map b64char (b64_sextets bs)"
  let ?pad = "b64_padding (length bs)"
  show "btoa bs = Inr (?body @ ?pad)"
    using no_wide_char [OF assms] by (simp add: btoa_def)
  have sx: "\<forall>x \<in> set (b64_sextets bs). x < 64"
    using assms by (rule b64_sextets_bound)
  then have alph: "\<forall>c \<in> set ?body. c \<in> set b64_alphabet"
    by (simp add: b64char_in_alphabet)
  have nopad: "61 \<notin> set ?body"
    using alph alphabet_not_pad by blast
  have shape: "?pad = [] \<or> (?body \<noteq> [] \<and> (?pad = [61] \<or> ?pad = [61, 61]))"
    using pad_cases [of "length bs"] pad_body [of bs] by blast
  have len: "length (?body @ ?pad) mod 4 = 0"
    by (rule out_len)
  have filt: "filter (\<lambda>c. \<not> ascii_whitespace c) (?body @ ?pad) = ?body @ ?pad"
    using alph by (rule no_whitespace)
  have strip: "strip_padding (?body @ ?pad) = ?body"
    using nopad len shape by (rule strip_padding_out)
  have valid: "\<not> list_ex (\<lambda>c. b64index c = None) ?body"
    using sx by (rule all_valid)
  have inv: "map (\<lambda>c. the (b64index c)) ?body = b64_sextets bs"
    using sx by (rule b64index_map_b64char)
  have m: "length ?body mod 4 \<noteq> 1"
    using b64_sextets_length_mod by simp
  show "atob (?body @ ?pad) = Inr bs"
    unfolding atob_def filt strip Let_def
    by (simp only: m valid inv b64_bytes_sextets [OF assms] if_False)
qed

lemma unat_byte_bound: "\<forall>x \<in> set (map unat (b :: byte list)). x < 256"
proof
  fix x assume "x \<in> set (map unat b)"
  then obtain w :: byte where "x = unat w" by auto
  then show "x < 256" using unsigned_less [of w] by simp
qed

lemma word_of_nat_unat_map: "map word_of_nat (map unat b) = (b :: byte list)"
  by (induction b) simp_all

lemma encode_eq:
  "encode b = Inr (map b64char (b64_sextets (map unat b)) @ b64_padding (length b))"
  using atob_btoa(1) [OF unat_byte_bound [of b]] by (simp add: encode_def encode_loop_eq)

lemma decode_encoded:
  "decode (map b64char (b64_sextets (map unat b)) @ b64_padding (length b)) = Inr b"
proof -
  have "atob (map b64char (b64_sextets (map unat b)) @ b64_padding (length b))
          = Inr (map unat b)"
    using atob_btoa(2) [OF unat_byte_bound [of b]] by simp
  then show ?thesis
    by (simp add: decode_def decode_loop_eq word_of_nat_unat_map del: map_map)
qed

text \<open>
  Claim C4. For every byte sequence \<open>b\<close>, the empty one and those that contain every
  byte value included, \<open>encode\<close> returns a text and \<open>decode\<close> of that text returns
  \<open>b\<close>: neither call throws, and the bytes come back unchanged.
\<close>

theorem codec_round_trip: "\<exists>t. encode b = Inr t \<and> decode t = Inr b"
  using encode_eq [of b] decode_encoded [of b] by blast

theorem codec_round_trip_witness:
  "encode [255, 0, 128, 7] = Inr (map of_char ''/wCABw=='') \<and>
   decode (map of_char ''/wCABw=='') = Inr [255, 0, 128, 7]"
proof -
  have e: "encode [255, 0, 128, 7] = Inr (map of_char ''/wCABw=='')"
    by code_simp
  from codec_round_trip [of "[255, 0, 128, 7]"]
  obtain t where "encode [255, 0, 128, 7] = Inr t" and "decode t = Inr [255, 0, 128, 7]"
    by blast
  with e show ?thesis by simp
qed

section \<open>Typed arrays and the iterations of \<^verbatim>\<open>decodeAudioData\<close>\<close>

lemma int16_of_bytes_length: "length (int16_of_bytes data) = length data div 2"
  by (induction data rule: int16_of_bytes.induct) simp_all

lemma int16_bytes_inverse:
  "word_of_nat (unat (word_of_nat (unat w mod 256) :: byte)
     + 256 * unat (word_of_nat (unat w div 256) :: byte)) = (w :: 16 word)"
proof -
  have "unat w < 65536" using unsigned_less [of w] by simp
  then have hi: "unat w div 256 < 256" by simp
  have "unat (word_of_nat (unat w mod 256) :: byte) = unat w mod 256"
    by (simp add: unat_of_nat)
  moreover have "unat (word_of_nat (unat w div 256) :: byte) = unat w div 256"
    using hi by (simp add: unat_of_nat)
  ultimately show ?thesis by simp
qed

lemma int16_of_bytes_append:
  "int16_of_bytes (int16_bytes w @ rest) = w # int16_of_bytes rest"
  unfolding int16_bytes_def
  by (simp only: append_Cons append_Nil int16_of_bytes.simps int16_bytes_inverse)

lemma int16_of_bytes_concat: "int16_of_bytes (concat (map int16_bytes ws)) = ws"
  by (induction ws) (simp_all only: list.map concat.simps int16_of_bytes_append int16_of_bytes.simps)

lemma fill_channel_eq:
  assumes "\<forall>j < length cd. of_nat j < fc"
  shows "fill_channel d nc fc c i cd
           = take i cd @ map (\<lambda>j. int16_sample d (j * nc + c)) [i..<length cd]"
  using assms
proof (induction d nc fc c i cd rule: fill_channel.induct)
  case (1 d nc fc c i cd)
  show ?case
  proof (cases "of_nat i < fc")
    case True
    let ?cd = "cd[i := int16_sample d (i * nc + c)]"
    have ih: "fill_channel d nc fc c (i + 1) ?cd
               = take (i + 1) ?cd @ map (\<lambda>j. int16_sample d (j * nc + c)) [i + 1..<length ?cd]"
      using 1(1) [OF True] 1(2) by simp
    have step: "fill_channel d nc fc c i cd = fill_channel d nc fc c (i + 1) ?cd"
      using True by (simp add: fill_channel.simps [of d nc fc c i])
    show ?thesis
    proof (cases "i < length cd")
      case True
      then have "take (i + 1) ?cd = take i cd @ [int16_sample d (i * nc + c)]"
        by (simp add: take_Suc_conv_app_nth)
      moreover have "[i..<length cd] = i # [i + 1..<length cd]"
        using True by (simp add: upt_conv_Cons)
      ultimately show ?thesis using step ih by simp
    next
      case False
      then have "?cd = cd" by (simp add: list_update_beyond)
      with False show ?thesis using step ih by simp
    qed
  next
    case False
    then have "length cd \<le> i" using 1(2) by (meson not_le_imp_less)
    then show ?thesis using False by (simp add: fill_channel.simps [of d nc fc c i])
  qed
qed

lemma fill_channels_eq:
  assumes "length buf = nc"
  shows "fill_channels d nc fc ch buf
           = take ch buf @ map (\<lambda>c. fill_channel d nc fc c 0 (buf ! c)) [ch..<nc]"
  using assms
proof (induction d nc fc ch buf rule: fill_channels.induct)
  case (1 d nc fc ch buf)
  show ?case
  proof (cases "ch < nc")
    case True
    let ?buf = "buf[ch := fill_channel d nc fc ch 0 (buf ! ch)]"
    have ih: "fill_channels d nc fc (ch + 1) ?buf
               = take (ch + 1) ?buf @ map (\<lambda>c. fill_channel d nc fc c 0 (?buf ! c)) [ch + 1..<nc]"
      using 1(1) [OF True] 1(2) by simp
    have step: "fill_channels d nc fc ch buf = fill_channels d nc fc (ch + 1) ?buf"
      using True by (simp add: fill_channels.simps [of d nc fc ch])
    have t: "take (ch + 1) ?buf = take ch buf @ [fill_channel d nc fc ch 0 (buf ! ch)]"
      using True 1(2) by (simp add: take_Suc_conv_app_nth)
    have m: "map (\<lambda>c. fill_channel d nc fc c 0 (?buf ! c)) [ch + 1..<nc]
              = map (\<lambda>c. fill_channel d nc fc c 0 (buf ! c)) [ch + 1..<nc]"
      by (rule map_cong) auto
    have u: "[ch..<nc] = ch # [ch + 1..<nc]"
      using True by (simp add: upt_conv_Cons)
    show ?thesis using step ih t m u by simp
  next
    case False
    then show ?thesis using 1(2) by (simp add: fill_channels.simps [of d nc fc ch])
  qed
qed

lemma trunc_of_nat_div: "trunc (of_nat m / of_nat n) = int (m div n)"
proof -
  have "(0::rat) \<le> of_nat m / of_nat n" by simp
  then have "trunc (of_nat m / of_nat n) = \<lfloor>(of_nat m / of_nat n :: rat)\<rfloor>"
    by (simp add: trunc_def)
  then show ?thesis by (simp add: floor_divide_of_nat_eq)
qed

lemma ToUint_frameCount:
  "m div n < 2 ^ 32 \<Longrightarrow> ToUint 32 (of_nat m / of_nat n) = m div n"
proof -
  assume a: "m div n < 2 ^ 32"
  have "int (m div n) mod 2 ^ 32 = int (m div n)"
    using a by (simp add: zmod_int [symmetric] del: of_nat_div)
  then show ?thesis by (simp add: ToUint_def trunc_of_nat_div del: of_nat_div)
qed

lemma frame_in_loop:
  assumes "0 < n" and "j < m div n"
  shows "(of_nat j :: rat) < of_nat m / of_nat n"
proof -
  have "Suc j * n \<le> (m div n) * n" using assms(2) by (simp add: Suc_leI mult_le_mono1 del: mult_Suc)
  also have "\<dots> \<le> m" by simp
  finally have "j * n < m" using assms(1) by simp
  then have "(of_nat (j * n) :: rat) < of_nat m" by (simp only: of_nat_less_iff)
  then have "(of_nat j :: rat) * of_nat n < of_nat m" by simp
  then show ?thesis using assms(1) by (simp add: pos_less_divide_eq)
qed

lemma frame_in_range:
  assumes "c < n" and "j < m div n"
  shows "j * n + c < (m :: nat)"
proof -
  have "j * n + c < Suc j * n" using assms(1) by simp
  also have "\<dots> \<le> (m div n) * n" using assms(2) by (simp add: Suc_leI mult_le_mono1 del: mult_Suc)
  also have "\<dots> \<le> m" by simp
  finally show ?thesis .
qed

lemma fill_channels_zero:
  assumes "0 < nc"
  shows "fill_channels d nc (of_nat (length d) / of_nat nc) 0
           (replicate nc (replicate (length d div nc) (Num 0))) = deinterleaved d nc"
proof -
  let ?fc = "of_nat (length d) / of_nat nc :: rat"
  let ?n = "length d div nc"
  let ?z = "replicate ?n (Num 0)"
  have one: "fill_channel d nc ?fc c 0 ?z
               = map (\<lambda>i. Num (of_int (sint (d ! (i * nc + c))) / 32768)) [0..<?n]"
    if "c < nc" for c
  proof -
    have "\<forall>j < length ?z. of_nat j < ?fc"
      using frame_in_loop [OF assms] by simp
    then have "fill_channel d nc ?fc c 0 ?z
                 = take 0 ?z @ map (\<lambda>j. int16_sample d (j * nc + c)) [0..<length ?z]"
      by (rule fill_channel_eq)
    also have "\<dots> = map (\<lambda>j. int16_sample d (j * nc + c)) [0..<?n]" by simp
    also have "\<dots> = map (\<lambda>i. Num (of_int (sint (d ! (i * nc + c))) / 32768)) [0..<?n]"
      by (rule map_cong) (auto simp: int16_sample_def frame_in_range [OF that])
    finally show ?thesis .
  qed
  have "fill_channels d nc ?fc 0 (replicate nc ?z)
          = take 0 (replicate nc ?z)
            @ map (\<lambda>c. fill_channel d nc ?fc c 0 (replicate nc ?z ! c)) [0..<nc]"
    by (rule fill_channels_eq) simp
  also have "\<dots> = map (\<lambda>c. fill_channel d nc ?fc c 0 (replicate nc ?z ! c)) [0..<nc]"
    by simp
  also have "\<dots> = deinterleaved d nc"
    unfolding deinterleaved_def by (rule map_cong) (auto simp: one)
  finally show ?thesis .
qed

lemma decodeAudioData_buffer_frames:
  assumes "even (length (arrayBuffer data))" and "1 \<le> nc" and "nc \<le> 32"
    and "8000 \<le> rate" and "rate \<le> 96000"
    and "nc \<le> length (arrayBuffer data) div 2"
    and "length (arrayBuffer data) div 2 div nc < 2 ^ 32"
  shows "decodeAudioData data rate nc
           = Inr \<lparr>numberOfChannels = nc,
                  buffer_length = length (arrayBuffer data) div 2 div nc,
                  sampleRate = rate,
                  channels = deinterleaved (int16_of_bytes (arrayBuffer data)) nc\<rparr>"
proof -
  let ?b = "arrayBuffer data"
  let ?d = "int16_of_bytes ?b"
  have len: "length ?d = length ?b div 2" by (rule int16_of_bytes_length)
  have n: "new_Int16Array ?b = Inr ?d"
    using assms(1) by (simp add: new_Int16Array_def)
  have u: "ToUint 32 (of_nat (length ?d) / of_nat nc) = length ?d div nc"
    using assms(7) by (simp only: len ToUint_frameCount)
  have pos: "0 < length ?d div nc"
    using assms(2,6) by (simp add: len div_greater_zero_iff)
  have c: "createBuffer nc (of_nat (length ?d) / of_nat nc) rate
             = Inr \<lparr>numberOfChannels = nc, buffer_length = length ?d div nc, sampleRate = rate,
                    channels = replicate nc (replicate (length ?d div nc) (Num 0))\<rparr>"
    using assms(2-5) pos by (simp add: createBuffer_def u Let_def)
  have f: "fill_channels ?d nc (of_nat (length ?d) / of_nat nc) 0
             (replicate nc (replicate (length ?d div nc) (Num 0))) = deinterleaved ?d nc"
    using assms(2) by (intro fill_channels_zero) simp
  show ?thesis
    unfolding decodeAudioData_def n by (simp add: Let_def c [unfolded len] f [unfolded len] len)
qed

lemma decodeAudioData_buffer_odd:
  "odd (length (arrayBuffer data)) \<Longrightarrow> decodeAudioData data rate nc = Inl RangeError"
  by (simp add: decodeAudioData_def new_Int16Array_def)

lemma decodeAudioData_buffer_no_frame:
  assumes "even (length (arrayBuffer data))" and "length (arrayBuffer data) div 2 < nc"
  shows "decodeAudioData data rate nc = Inl NotSupportedError"
proof -
  let ?b = "arrayBuffer data"
  let ?d = "int16_of_bytes ?b"
  have len: "length ?d = length ?b div 2" by (rule int16_of_bytes_length)
  have n: "new_Int16Array ?b = Inr ?d"
    using assms(1) by (simp add: new_Int16Array_def)
  have "length ?d div nc = 0" using assms(2) by (simp add: len)
  then have "ToUint 32 (of_nat (length ?d) / of_nat nc) = 0"
    using ToUint_frameCount [of "length ?d" nc] by simp
  then have "createBuffer nc (of_nat (length ?d) / of_nat nc) rate = Inl NotSupportedError"
    by (simp add: createBuffer_def)
  then show ?thesis
    unfolding decodeAudioData_def n by (simp add: Let_def)
qed

lemma whole_fields:
  "arrayBuffer (whole bytes) = bytes" "byte_offset (whole bytes) = 0"
  "byte_length (whole bytes) = length bytes" "elements (whole bytes) = bytes"
  by (simp_all add: whole_def elements_def)

lemma decodeAudioData_frames:
  assumes "even (length data)" and "1 \<le> nc" and "nc \<le> 32"
    and "8000 \<le> rate" and "rate \<le> 96000"
    and "nc \<le> length data div 2" and "length data div 2 div nc < 2 ^ 32"
  shows "decodeAudioData (whole data) rate nc
           = Inr \<lparr>numberOfChannels = nc, buffer_length = length data div 2 div nc,
                  sampleRate = rate, channels = deinterleaved (int16_of_bytes data) nc\<rparr>"
  using assms decodeAudioData_buffer_frames [of "whole data" nc rate]
  by (simp only: whole_fields)

lemma decodeAudioData_no_frame:
  assumes "even (length data)" and "length data div 2 < nc"
  shows "decodeAudioData (whole data) rate nc = Inl NotSupportedError"
  using assms decodeAudioData_buffer_no_frame [of "whole data" nc rate]
  by (simp only: whole_fields)

section \<open>\<^verbatim>\<open>decodeAudioData\<close>: de-interleaving and failures\<close>

text \<open>
  Claim C8, as amended. \<open>decodeAudioData\<close> reads the whole buffer under its argument; for
  an array that spans its buffer these are the bytes of the array. For 1 to 32 channels,
  a supported sample rate and a buffer of fewer than \<open>2 ^ 32\<close> bytes, it fails with a
  \<open>RangeError\<close> when the byte length of the buffer is odd, fails with a
  \<open>NotSupportedError\<close> when the buffer holds no complete frame, and otherwise returns one
  sequence per channel, de-interleaved, each sample divided by 32768, with as many frames
  as are complete. A byte length that is even and not a multiple of \<open>2 * numChannels\<close> is
  not an error: the incomplete last frame is dropped.
\<close>

theorem decodeAudioData_deinterleaves:
  assumes "1 \<le> nc" and "nc \<le> 32" and "8000 \<le> rate" and "rate \<le> 96000"
    and "length (arrayBuffer data) < 2 ^ 32"
  shows "(odd (length (arrayBuffer data)) \<longrightarrow>
            decodeAudioData data rate nc = Inl RangeError) \<and>
         (even (length (arrayBuffer data)) \<and> length (arrayBuffer data) div 2 < nc \<longrightarrow>
            decodeAudioData data rate nc = Inl NotSupportedError) \<and>
         (even (length (arrayBuffer data)) \<and> nc \<le> length (arrayBuffer data) div 2 \<longrightarrow>
            decodeAudioData data rate nc
              = Inr \<lparr>numberOfChannels = nc,
                     buffer_length = length (arrayBuffer data) div 2 div nc,
                     sampleRate = rate,
                     channels = deinterleaved (int16_of_bytes (arrayBuffer data)) nc\<rparr>) \<and>
         (byte_offset data = 0 \<and> byte_length data = length (arrayBuffer data) \<longrightarrow>
            arrayBuffer data = elements data)"
proof -
  have "length (arrayBuffer data) div 2 div nc \<le> length (arrayBuffer data)"
    by (meson div_le_dividend le_trans)
  then have "length (arrayBuffer data) div 2 div nc < 2 ^ 32" using assms(5) by simp
  then have A: "(odd (length (arrayBuffer data)) \<longrightarrow>
            decodeAudioData data rate nc = Inl RangeError) \<and>
         (even (length (arrayBuffer data)) \<and> length (arrayBuffer data) div 2 < nc \<longrightarrow>
            decodeAudioData data rate nc = Inl NotSupportedError) \<and>
         (even (length (arrayBuffer data)) \<and> nc \<le> length (arrayBuffer data) div 2 \<longrightarrow>
            decodeAudioData data rate nc
              = Inr \<lparr>numberOfChannels = nc,
                     buffer_length = length (arrayBuffer data) div 2 div nc,
                     sampleRate = rate,
                     channels = deinterleaved (int16_of_bytes (arrayBuffer data)) nc\<rparr>)"
    using assms(1-4) decodeAudioData_buffer_odd decodeAudioData_buffer_no_frame
      decodeAudioData_buffer_frames
    by blast
  have B: "byte_offset data = 0 \<and> byte_length data = length (arrayBuffer data) \<longrightarrow>
            arrayBuffer data = elements data"
    by (simp add: elements_def)
  show ?thesis
    by (rule conjI [OF A [THEN conjunct1]
          conjI [OF A [THEN conjunct2, THEN conjunct1]
            conjI [OF A [THEN conjunct2, THEN conjunct2] B]]])
qed

lemma upt_0_2: "[0..<2] = [0, 1]"
  by (simp add: numeral_2_eq_2)

theorem decodeAudioData_deinterleaves_witness:
  "decodeAudioData (whole [1, 0, 255, 255, 0, 128, 0, 0]) 24000 2
     = Inr \<lparr>numberOfChannels = 2, buffer_length = 2, sampleRate = 24000,
            channels = [[Num (1 / 32768), Num (- 1)], [Num (- (1 / 32768)), Num 0]]\<rparr> \<and>
   elements (whole [1, 0, 255, 255, 0, 128, 0, 0]) = [1, 0, 255, 255, 0, 128, 0, 0] \<and>
   decodeAudioData
     \<lparr>arrayBuffer = [1, 0, 255, 255, 0, 128, 0, 0], byte_offset = 4, byte_length = 4\<rparr> 24000 2
     = Inr \<lparr>numberOfChannels = 2, buffer_length = 2, sampleRate = 24000,
            channels = [[Num (1 / 32768), Num (- 1)], [Num (- (1 / 32768)), Num 0]]\<rparr> \<and>
   decodeAudioData (whole [1, 0, 255]) 24000 2 = Inl RangeError \<and>
   decodeAudioData (whole [1, 0]) 24000 2 = Inl NotSupportedError"
proof -
  let ?view = "\<lparr>arrayBuffer = [1, 0, 255, 255, 0, 128, 0, 0], byte_offset = 4, byte_length = 4\<rparr>"
  have v: "deinterleaved (int16_of_bytes [1, 0, 255, 255, 0, 128, 0, 0]) 2
             = [[Num (1 / 32768), Num (- 1)], [Num (- (1 / 32768)), Num 0]]"
    by (simp add: deinterleaved_def upt_0_2)
  have h: "(1::nat) \<le> 2" "(2::nat) \<le> 32" "(8000::nat) \<le> 24000" "(24000::nat) \<le> 96000"
    by simp_all
  have a: "decodeAudioData (whole [1, 0, 255, 255, 0, 128, 0, 0]) 24000 2
     = Inr \<lparr>numberOfChannels = 2, buffer_length = 2, sampleRate = 24000,
            channels = [[Num (1 / 32768), Num (- 1)], [Num (- (1 / 32768)), Num 0]]\<rparr>"
    using decodeAudioData_deinterleaves [OF h, of "whole [1, 0, 255, 255, 0, 128, 0, 0]"] v
    by (simp add: whole_fields)
  have e: "elements (whole [1, 0, 255, 255, 0, 128, 0, 0]) = [1, 0, 255, 255, 0, 128, 0, 0]"
    using decodeAudioData_deinterleaves [OF h, of "whole [1, 0, 255, 255, 0, 128, 0, 0]"]
    by (simp add: whole_def)
  have a': "decodeAudioData ?view 24000 2
     = Inr \<lparr>numberOfChannels = 2, buffer_length = 2, sampleRate = 24000,
            channels = [[Num (1 / 32768), Num (- 1)], [Num (- (1 / 32768)), Num 0]]\<rparr>"
    using decodeAudioData_deinterleaves [OF h, of ?view] v by simp
  have b: "decodeAudioData (whole [1, 0, 255]) 24000 2 = Inl RangeError"
    using decodeAudioData_deinterleaves [OF h, of "whole [1, 0, 255]"]
    by (simp add: whole_fields)
  have c: "decodeAudioData (whole [1, 0]) 24000 2 = Inl NotSupportedError"
    using decodeAudioData_deinterleaves [OF h, of "whole [1, 0]"]
    by (simp add: whole_fields)
  from a e a' b c show ?thesis by (intro conjI)
qed

text \<open>
  The claim as stated fails. Six bytes for two channels are not a multiple of four bytes,
  and the call returns a buffer of one frame. A view of three bytes, an odd length, of a
  buffer of four bytes is decoded without error, and it is the buffer that is decoded:
  two frames, where the view holds one sample and a half.
\<close>

theorem decodeAudioData_partial_frame_counterexample:
  "\<not> 2 * 2 dvd length (elements (whole [1, 0, 2, 0, 3, 0])) \<and>
   decodeAudioData (whole [1, 0, 2, 0, 3, 0]) 24000 2
     = Inr \<lparr>numberOfChannels = 2, buffer_length = 1, sampleRate = 24000,
            channels = [[Num (1 / 32768)], [Num (1 / 16384)]]\<rparr> \<and>
   \<not> 2 * 1 dvd length (elements \<lparr>arrayBuffer = [1, 0, 2, 0], byte_offset = 0, byte_length = 3\<rparr>) \<and>
   decodeAudioData \<lparr>arrayBuffer = [1, 0, 2, 0], byte_offset = 0, byte_length = 3\<rparr> 24000 1
     = Inr \<lparr>numberOfChannels = 1, buffer_length = 2, sampleRate = 24000,
            channels = [[Num (1 / 32768), Num (1 / 16384)]]\<rparr>"
proof -
  have v: "deinterleaved (int16_of_bytes [1, 0, 2, 0, 3, 0]) 2
             = [[Num (1 / 32768)], [Num (1 / 16384)]]"
    by (simp add: deinterleaved_def upt_0_2)
  have a: "decodeAudioData (whole [1, 0, 2, 0, 3, 0]) 24000 2
     = Inr \<lparr>numberOfChannels = 2, buffer_length = 1, sampleRate = 24000,
            channels = [[Num (1 / 32768)], [Num (1 / 16384)]]\<rparr>"
    using decodeAudioData_frames [of "[1, 0, 2, 0, 3, 0]" 2 24000] v by simp
  have w: "deinterleaved (int16_of_bytes [1, 0, 2, 0]) 1
             = [[Num (1 / 32768), Num (1 / 16384)]]"
    by (simp add: deinterleaved_def upt_0_2)
  have b: "decodeAudioData \<lparr>arrayBuffer = [1, 0, 2, 0], byte_offset = 0, byte_length = 3\<rparr> 24000 1
     = Inr \<lparr>numberOfChannels = 1, buffer_length = 2, sampleRate = 24000,
            channels = [[Num (1 / 32768), Num (1 / 16384)]]\<rparr>"
    using decodeAudioData_buffer_frames
      [of "\<lparr>arrayBuffer = [1, 0, 2, 0], byte_offset = 0, byte_length = 3\<rparr>" 1 24000] w
    by simp
  have l: "length (elements (whole [1, 0, 2, 0, 3, 0])) = 6"
    "length (elements \<lparr>arrayBuffer = [1, 0, 2, 0], byte_offset = 0, byte_length = 3\<rparr>) = 3"
    by (simp_all add: whole_fields elements_def)
  have n: "\<not> 2 * 2 dvd (6::nat)" "\<not> 2 * 1 dvd (3::nat)" by presburger+
  from a b n show ?thesis by (simp only: l not_False_eq_True simp_thms)
qed

section \<open>The PCM conversion and its round trip\<close>

lemma trunc_error: "\<bar>of_int (trunc y) - y\<bar> < 1"
proof (cases "0 \<le> y")
  case True
  then show ?thesis unfolding trunc_def by simp linarith
next
  case False
  then show ?thesis unfolding trunc_def by simp linarith
qed

lemma trunc_range:
  assumes "- 32768 \<le> y" and "y < 32768"
  shows "- 32768 \<le> trunc y \<and> trunc y < 32768"
proof (cases "0 \<le> y")
  case True
  then have "0 \<le> \<lfloor>y\<rfloor>" by simp
  moreover have "\<lfloor>y\<rfloor> < 32768" using assms(2) by (simp add: floor_less_iff)
  ultimately show ?thesis using True by (simp add: trunc_def)
next
  case False
  then have "\<lceil>y\<rceil> \<le> 0" by (simp add: ceiling_le_iff)
  moreover have "- 32768 \<le> \<lceil>y\<rceil>" using assms(1) by (simp add: le_ceiling_iff)
  ultimately show ?thesis using False by (simp add: trunc_def)
qed

lemma sint_wrap: "sint (word_of_int k :: 16 word) = (k + 32768) mod 65536 - 32768"
  using int_word_sint [of k, where ?'a = 16] by simp

lemma sint_int16: "- 32768 \<le> k \<Longrightarrow> k < 32768 \<Longrightarrow> sint (word_of_int k :: 16 word) = k"
  by (simp add: sint_wrap)

lemma sample_round_trip:
  assumes "- 1 \<le> x" and "x < 1"
  shows "\<bar>of_int (sint (word_of_int (trunc (x * 32768)) :: 16 word)) / 32768 - x\<bar> \<le> 1 / 32768"
proof -
  let ?y = "x * 32768"
  have "- 32768 \<le> ?y" "?y < 32768" using assms by simp_all
  then have "sint (word_of_int (trunc ?y) :: 16 word) = trunc ?y"
    using trunc_range [of ?y] sint_int16 by simp
  moreover have "\<bar>of_int (trunc ?y) / 32768 - x\<bar> = \<bar>of_int (trunc ?y) - ?y\<bar> / 32768"
    by (simp add: field_simps abs_if)
  moreover have "\<bar>of_int (trunc ?y) - ?y\<bar> / 32768 \<le> 1 / 32768"
    using trunc_error [of ?y] by (simp add: divide_le_cancel)
  ultimately show ?thesis by simp
qed

lemma input_pcm_Num:
  "input_pcm (map Num s)
     = concat (map int16_bytes (map (\<lambda>x. word_of_int (trunc (x * 32768))) s))"
  by (simp add: input_pcm_def scale_def ToInt16_def comp_def)

lemma int16_bytes_concat_length: "length (concat (map int16_bytes ws)) = 2 * length ws"
  by (induction ws) (simp_all add: int16_bytes_def)

lemma deinterleaved_mono:
  "deinterleaved ws 1 = [map Num (map (\<lambda>w. of_int (sint w) / 32768) ws)]"
proof -
  have "map (\<lambda>i. Num (of_int (sint (ws ! i)) / 32768)) [0..<length ws]
          = map (\<lambda>w. Num (of_int (sint w) / 32768)) (map ((!) ws) [0..<length ws])"
    by simp
  also have "\<dots> = map (\<lambda>w. Num (of_int (sint w) / 32768)) ws"
    by (simp only: map_nth)
  finally show ?thesis by (simp add: deinterleaved_def comp_def)
qed

text \<open>
  Claim C5, as amended. For every non-empty sequence of fewer than \<open>2 ^ 32\<close> samples in
  \<open>[-1, 1)\<close>, the bytes that the capture callback produces decode (one channel, a
  supported sample rate) to a sequence of the same length whose samples differ from the
  originals by at most \<open>1 / 32768\<close>.
\<close>

theorem pcm_round_trip:
  assumes "s \<noteq> []" and "\<forall>x \<in> set s. - 1 \<le> x \<and> x < 1"
    and "8000 \<le> rate" and "rate \<le> 96000" and "length s < 2 ^ 32"
  shows "\<exists>s'. decodeAudioData (whole (input_pcm (map Num s))) rate 1
                 = Inr \<lparr>numberOfChannels = 1, buffer_length = length s, sampleRate = rate,
                        channels = [map Num s']\<rparr>
              \<and> length s' = length s
              \<and> (\<forall>i < length s. \<bar>s' ! i - s ! i\<bar> \<le> 1 / 32768)"
proof -
  let ?ws = "map (\<lambda>x. word_of_int (trunc (x * 32768)) :: 16 word) s"
  let ?data = "concat (map int16_bytes ?ws)"
  let ?s' = "map (\<lambda>w. of_int (sint w) / 32768 :: rat) ?ws"
  have len: "length ?data = 2 * length s"
    by (simp only: int16_bytes_concat_length length_map)
  have d16: "int16_of_bytes ?data = ?ws" by (rule int16_of_bytes_concat)
  have "decodeAudioData (whole ?data) rate 1
          = Inr \<lparr>numberOfChannels = 1, buffer_length = length ?data div 2 div 1,
                 sampleRate = rate, channels = deinterleaved (int16_of_bytes ?data) 1\<rparr>"
  proof (rule decodeAudioData_frames)
    show "even (length ?data)" by (simp only: len even_mult_iff) simp
    show "1 \<le> length ?data div 2"
      using assms(1) by (simp only: len) (simp add: Suc_leI)
    show "length ?data div 2 div 1 < 2 ^ 32"
      using assms(5) by (simp only: len) simp
  qed (use assms(3,4) in simp_all)
  then have dec: "decodeAudioData (whole (input_pcm (map Num s))) rate 1
          = Inr \<lparr>numberOfChannels = 1, buffer_length = length s,
                 sampleRate = rate, channels = [map Num ?s']\<rparr>"
    by (simp only: input_pcm_Num d16 deinterleaved_mono len) simp
  have close: "\<forall>i < length s. \<bar>?s' ! i - s ! i\<bar> \<le> 1 / 32768"
  proof (intro allI impI)
    fix i assume i: "i < length s"
    then have "s ! i \<in> set s" by simp
    then have "- 1 \<le> s ! i" "s ! i < 1" using assms(2) by auto
    then show "\<bar>?s' ! i - s ! i\<bar> \<le> 1 / 32768"
      using i sample_round_trip [of "s ! i"] by simp
  qed
  have "length ?s' = length s" by simp
  with dec close show ?thesis by blast
qed

lemma floor_rat_numeral:
  "\<lfloor>numeral a / numeral b :: rat\<rfloor> = numeral a div numeral b"
  using floor_divide_of_int_eq [of "numeral a" "numeral b", where ?'a = rat] by simp

lemma ceiling_rat_minus_numeral:
  "\<lceil>- (numeral a / numeral b) :: rat\<rceil> = - (numeral a div numeral b)"
  by (simp add: ceiling_def floor_rat_numeral)

lemma trunc_numeral_simps:
  "trunc (numeral a / numeral b) = numeral a div numeral b"
  "trunc (- (numeral a / numeral b)) = - (numeral a div numeral b)"
  "trunc (numeral a) = numeral a"
  "trunc (- numeral a) = - numeral a"
  "trunc 0 = 0"
  by (simp_all add: trunc_def floor_rat_numeral ceiling_rat_minus_numeral)

lemmas eval_pcm = input_pcm_def scale_def ToInt16_def int16_bytes_def trunc_numeral_simps

theorem pcm_round_trip_witness:
  "decodeAudioData (whole (input_pcm (map Num [1 / 3, - 1, - (1 / 3)]))) 24000 1
     = Inr \<lparr>numberOfChannels = 1, buffer_length = 3, sampleRate = 24000,
            channels = [map Num [5461 / 16384, - 1, - (5461 / 16384)]]\<rparr> \<and>
   \<bar>5461 / 16384 - 1 / 3\<bar> \<le> (1 / 32768 :: rat) \<and>
   \<bar>- (5461 / 16384) - (- (1 / 3))\<bar> \<le> (1 / 32768 :: rat)"
proof -
  let ?s = "[1 / 3, - 1, - (1 / 3)] :: rat list"
  have h: "?s \<noteq> []" "\<forall>x \<in> set ?s. - 1 \<le> x \<and> x < 1"
    "(8000::nat) \<le> 24000" "(24000::nat) \<le> 96000" "length ?s < 2 ^ 32"
    by simp_all
  from pcm_round_trip [OF h] obtain s' where
    dec: "decodeAudioData (whole (input_pcm (map Num ?s))) 24000 1
            = Inr \<lparr>numberOfChannels = 1, buffer_length = length ?s, sampleRate = 24000,
                   channels = [map Num s']\<rparr>"
    and close: "\<forall>i < length ?s. \<bar>s' ! i - ?s ! i\<bar> \<le> 1 / 32768"
    by blast
  have bytes: "input_pcm (map Num ?s) = [170, 42, 0, 128, 86, 213]"
    by (simp add: eval_pcm)
  have "decodeAudioData (whole [170, 42, 0, 128, 86, 213]) 24000 1
          = Inr \<lparr>numberOfChannels = 1, buffer_length = 3, sampleRate = 24000,
                 channels = [map Num [5461 / 16384, - 1, - (5461 / 16384)]]\<rparr>"
    using decodeAudioData_frames [of "[170, 42, 0, 128, 86, 213]" 1 24000]
    by (simp add: deinterleaved_def)
  with dec bytes have "map Num s' = map Num [5461 / 16384, - 1, - (5461 / 16384)]"
    by simp
  then have s': "s' = [5461 / 16384, - 1, - (5461 / 16384)]"
    by (auto simp: map_eq_Cons_conv)
  have "\<bar>s' ! 0 - ?s ! 0\<bar> \<le> 1 / 32768" "\<bar>s' ! 2 - ?s ! 2\<bar> \<le> 1 / 32768"
    using close [rule_format, of 0] close [rule_format, of 2] by simp_all
  then have "\<bar>5461 / 16384 - 1 / 3\<bar> \<le> (1 / 32768 :: rat)"
    "\<bar>- (5461 / 16384) - (- (1 / 3))\<bar> \<le> (1 / 32768 :: rat)"
    unfolding s' by simp_all
  with dec show ?thesis unfolding s' by simp
qed

text \<open>
  The claim as stated fails at the sample 1, which lies in \<open>[-1, 1]\<close>: 32768 does not fit
  in 16 bits and wraps to \<open>-32768\<close>, so the sample comes back as \<open>-1\<close>. It also fails at
  the empty sequence, for which \<open>createBuffer\<close> throws.
\<close>

theorem pcm_round_trip_counterexample:
  "decodeAudioData (whole (input_pcm (map Num [1]))) 24000 1
     = Inr \<lparr>numberOfChannels = 1, buffer_length = 1, sampleRate = 24000,
            channels = [map Num [- 1]]\<rparr> \<and>
   \<not> \<bar>(- 1) - 1\<bar> \<le> (1 / 32768 :: rat) \<and>
   decodeAudioData (whole (input_pcm (map Num []))) 24000 1 = Inl NotSupportedError"
proof -
  have bytes: "input_pcm [Num 1] = [0, 128]"
    by (simp add: eval_pcm)
  have "decodeAudioData (whole [0, 128]) 24000 1
          = Inr \<lparr>numberOfChannels = 1, buffer_length = 1, sampleRate = 24000,
                 channels = [map Num [- 1]]\<rparr>"
    using decodeAudioData_frames [of "[0, 128]" 1 24000]
    by (simp add: deinterleaved_def)
  moreover have "decodeAudioData (whole (input_pcm (map Num []))) 24000 1 = Inl NotSupportedError"
    using decodeAudioData_no_frame [of "[]" 1 24000] by (simp add: input_pcm_def)
  ultimately show ?thesis by (simp add: bytes)
qed

lemma int16_bytes_of_int:
  "int16_bytes (word_of_int k)
     = [word_of_int (k mod 65536), word_of_int (k mod 65536 div 256)]"
proof -
  let ?m = "k mod 65536"
  have m: "0 \<le> ?m" by simp
  have u: "unat (word_of_int k :: 16 word) = nat ?m"
    by (simp add: unsigned_of_int take_bit_eq_mod)
  have "(word_of_nat (nat ?m mod 256) :: byte) = word_of_nat (nat ?m)"
    unfolding word_of_nat_eq_iff by (simp add: take_bit_eq_mod)
  also have "\<dots> = word_of_int ?m" using m by simp
  finally have lo: "(word_of_nat (nat ?m mod 256) :: byte) = word_of_int ?m" .
  have "nat ?m div 256 = nat (?m div 256)" by (simp add: nat_div_distrib)
  moreover have "0 \<le> ?m div 256" using m by (simp add: pos_imp_zdiv_nonneg_iff)
  ultimately have hi: "(word_of_nat (nat ?m div 256) :: byte) = word_of_int (?m div 256)"
    by simp
  show ?thesis unfolding int16_bytes_def u by (simp only: lo hi)
qed

text \<open>
  Claim C6, as amended. Each sample is multiplied by 32768 and truncated towards zero; the
  two bytes stored, least significant first, are those of the integer modulo \<open>2 ^ 16\<close>,
  so that the 16-bit signed value is the integer wrapped into \<open>[-32768, 32767]\<close>, and
  the integer itself for a sample in \<open>[-1, 1)\<close>. Every input, \<open>NaN\<close> included, gives two
  bytes per sample: there is no error. A value out of range is wrapped, not clamped.
\<close>

theorem input_pcm_wraps:
  "input_pcm (map Num s)
     = concat (map (\<lambda>x. [word_of_int (trunc (x * 32768) mod 65536),
                          word_of_int (trunc (x * 32768) mod 65536 div 256)]) s) \<and>
   length (input_pcm inputData) = 2 * length inputData \<and>
   sint (ToInt16 (scale (Num x))) = (trunc (x * 32768) + 32768) mod 65536 - 32768 \<and>
   (- 1 \<le> x \<and> x < 1 \<longrightarrow> sint (ToInt16 (scale (Num x))) = trunc (x * 32768))"
proof (intro conjI impI)
  show "input_pcm (map Num s)
     = concat (map (\<lambda>x. [word_of_int (trunc (x * 32768) mod 65536),
                          word_of_int (trunc (x * 32768) mod 65536 div 256)]) s)"
    by (simp add: input_pcm_Num int16_bytes_of_int comp_def)
  show "length (input_pcm inputData) = 2 * length inputData"
    unfolding input_pcm_def by (simp only: int16_bytes_concat_length length_map)
  show "sint (ToInt16 (scale (Num x))) = (trunc (x * 32768) + 32768) mod 65536 - 32768"
    by (simp add: ToInt16_def scale_def sint_wrap)
next
  assume "- 1 \<le> x \<and> x < 1"
  then have "- 32768 \<le> x * 32768" "x * 32768 < 32768" by simp_all
  then show "sint (ToInt16 (scale (Num x))) = trunc (x * 32768)"
    using trunc_range [of "x * 32768"] by (simp add: ToInt16_def scale_def sint_int16)
qed

theorem input_pcm_wraps_witness:
  "input_pcm (map Num [1 / 3, - (1 / 3), 3 / 2, - (3 / 2)])
     = [170, 42, 86, 213, 0, 192, 0, 64] \<and>
   length (input_pcm [NaN, Num 5]) = 4 \<and>
   sint (ToInt16 (scale (Num (3 / 2)))) = - 16384 \<and>
   sint (ToInt16 (scale (Num (- (1 / 3))))) = - 10922"
proof -
  have a: "input_pcm (map Num [1 / 3, - (1 / 3), 3 / 2, - (3 / 2)])
     = [170, 42, 86, 213, 0, 192, 0, 64]"
    using input_pcm_wraps [of "[1 / 3, - (1 / 3), 3 / 2, - (3 / 2)]" "[]" 0]
    by (simp add: trunc_numeral_simps)
  have b: "length (input_pcm [NaN, Num 5]) = 4"
    using input_pcm_wraps [of "[]" "[NaN, Num 5]" 0] by simp
  have c: "sint (ToInt16 (scale (Num (3 / 2)))) = - 16384"
    using input_pcm_wraps [of "[]" "[]" "3 / 2"] by (simp add: trunc_numeral_simps)
  have d: "sint (ToInt16 (scale (Num (- (1 / 3))))) = - 10922"
    using input_pcm_wraps [of "[]" "[]" "- (1 / 3)"] by (simp add: trunc_numeral_simps)
  from a b c d show ?thesis by simp
qed

text \<open>
  The claim as stated fails: the sample \<open>3 / 2\<close> is stored as \<open>-16384\<close> (bytes 0, 192),
  while clamping would store 32767 (bytes 255, 127).
\<close>

theorem input_pcm_clamp_counterexample:
  "sint (ToInt16 (scale (Num (3 / 2)))) = - 16384 \<and>
   clamp16 (trunc (3 / 2 * 32768)) = 32767 \<and>
   input_pcm [Num (3 / 2)] = [0, 192] \<and>
   int16_bytes (word_of_int (clamp16 (trunc (3 / 2 * 32768)))) = [255, 127]"
  by (simp add: eval_pcm clamp16_def)

section \<open>The container serializer\<close>

lemma trunc_of_nat: "trunc (of_nat n) = int n"
  by (simp add: trunc_def)

lemma ToUint_of_nat: "ToUint k (of_nat n) = n mod 2 ^ k"
  by (simp add: ToUint_def trunc_of_nat nat_mod_distrib nat_power_eq flip: zmod_int)

lemma byte_of_ToUint8: "(word_of_nat (ToUint 8 (of_nat n)) :: byte) = word_of_nat n"
  unfolding word_of_nat_eq_iff by (simp add: ToUint_of_nat take_bit_eq_mod)

lemma setUint8_at:
  assumes "length pre = off"
  shows "setUint8 (pre @ z # post) off (of_nat n) = Some (pre @ word_of_nat n # post)"
  unfolding assms [symmetric] by (simp add: setUint8_def byte_of_ToUint8)

lemma setUint8_byte_at:
  assumes "length pre = off"
  shows "setUint8 (pre @ z # post) off (of_nat (unat (b :: byte))) = Some (pre @ b # post)"
  unfolding setUint8_at [OF assms] by simp

lemma writeString_loop_at:
  "length pre = off + i \<Longrightarrow> length mid = length str - i \<Longrightarrow>
   writeString_loop (pre @ mid @ post) off str i
     = Some (pre @ map word_of_nat (drop i str) @ post)"
proof (induction mid arbitrary: pre i)
  case Nil
  then show ?case by (simp add: writeString_loop.simps [of _ off str i])
next
  case (Cons m ms)
  then have i: "i < length str" by simp
  then have d: "drop i str = str ! i # drop (Suc i) str"
    by (simp add: Cons_nth_drop_Suc)
  have "writeString_loop (pre @ (m # ms) @ post) off str i
          = writeString_loop ((pre @ [word_of_nat (str ! i)]) @ ms @ post) off str (i + 1)"
    using i setUint8_at [OF Cons.prems(1), of m "ms @ post" "str ! i"]
    by (simp add: writeString_loop.simps [of _ off str i])
  also have "\<dots> = Some ((pre @ [word_of_nat (str ! i)]) @ map word_of_nat (drop (i + 1) str) @ post)"
    using Cons.prems by (intro Cons.IH) simp_all
  finally show ?case using d by simp
qed

lemma writeString_at:
  "length pre = off \<Longrightarrow> length mid = length str \<Longrightarrow>
   writeString (pre @ mid @ post) off str = Some (pre @ ascii str @ post)"
  using writeString_loop_at [of pre off 0 mid "map of_char str" post]
  by (simp add: writeString_def ascii_def)

lemma write_pcm_at:
  "length pre = 44 + i \<Longrightarrow> length mid = length pcm - i \<Longrightarrow>
   write_pcm (pre @ mid @ post) pcm i = Some (pre @ drop i pcm @ post)"
proof (induction mid arbitrary: pre i)
  case Nil
  then show ?case by (simp add: write_pcm.simps [of _ pcm i])
next
  case (Cons m ms)
  then have i: "i < length pcm" by simp
  then have d: "drop i pcm = pcm ! i # drop (Suc i) pcm"
    by (simp add: Cons_nth_drop_Suc)
  have "write_pcm (pre @ (m # ms) @ post) pcm i
          = write_pcm ((pre @ [pcm ! i]) @ ms @ post) pcm (i + 1)"
    using i setUint8_byte_at [OF Cons.prems(1), of m "ms @ post" "pcm ! i"]
    by (simp add: write_pcm.simps [of _ pcm i] del: of_nat_unat)
  also have "\<dots> = Some ((pre @ [pcm ! i]) @ drop (i + 1) pcm @ post)"
    using Cons.prems by (intro Cons.IH) simp_all
  finally show ?case using d by simp
qed

lemma setUint16_at:
  assumes "length pre = off"
  shows "setUint16 (pre @ a # b # post) off v = Some (pre @ le16 v @ post)"
  unfolding assms [symmetric] by (simp add: setUint16_def le16_def list_update_append)

lemma setUint32_at:
  assumes "length pre = off"
  shows "setUint32 (pre @ a # b # c # d # post) off v = Some (pre @ le32 v @ post)"
  unfolding assms [symmetric] by (simp add: setUint32_def le32_def list_update_append)

lemma uint32_field:
  "length pre = off \<Longrightarrow>
   setUint32 (pre @ replicate (4 + m) 0) off v = Some ((pre @ le32 v) @ replicate m 0)"
  using setUint32_at [of pre off 0 0 0 0 "replicate m 0" v]
  by (simp add: numeral_eq_Suc)

lemma uint16_field:
  "length pre = off \<Longrightarrow>
   setUint16 (pre @ replicate (2 + m) 0) off v = Some ((pre @ le16 v) @ replicate m 0)"
  using setUint16_at [of pre off 0 0 "replicate m 0" v]
  by (simp add: numeral_eq_Suc)

lemma string_field:
  "length pre = off \<Longrightarrow> length str = 4 \<Longrightarrow>
   writeString (pre @ replicate (4 + m) 0) off str = Some ((pre @ ascii str) @ replicate m 0)"
  using writeString_at [of pre off "replicate 4 0" str "replicate m 0"]
  by (simp add: replicate_add)

lemma pcm_field:
  "length pre = 44 \<Longrightarrow> write_pcm (pre @ replicate (length pcm) 0) pcm 0 = Some (pre @ pcm)"
  using write_pcm_at [of pre 0 "replicate (length pcm) 0" pcm "[]"] by simp

lemma lens:
  "length (ascii str) = length str" "length (le32 v) = 4" "length (le16 v) = 2"
  by (simp_all add: ascii_def le32_def le16_def)

lemma createWavBlob_eq:
  "createWavBlob pcm rate nc bps = Some (wav_header (length pcm) rate nc bps @ pcm)"
proof -
  let ?h1 = "ascii ''RIFF''"
  let ?h2 = "?h1 @ le32 (of_nat (36 + length pcm))"
  let ?h3 = "?h2 @ ascii ''WAVE''"
  let ?h4 = "?h3 @ ascii ''fmt ''"
  let ?h5 = "?h4 @ le32 16"
  let ?h6 = "?h5 @ le16 1"
  let ?h7 = "?h6 @ le16 nc"
  let ?h8 = "?h7 @ le32 rate"
  let ?h9 = "?h8 @ le32 (rate * nc * (bps / 8))"
  let ?h10 = "?h9 @ le16 (nc * (bps / 8))"
  let ?h11 = "?h10 @ le16 bps"
  let ?h12 = "?h11 @ ascii ''data''"
  let ?h13 = "?h12 @ le32 (of_nat (length pcm))"
  have s1: "writeString (replicate (44 + length pcm) 0) 0 ''RIFF'' = Some (?h1 @ replicate (40 + length pcm) 0)"
    using string_field [of "[]" 0 "''RIFF''" "40 + length pcm"] by (simp add: lens)
  have s2: "setUint32 (?h1 @ replicate (40 + length pcm) 0) 4 (of_nat (36 + length pcm)) = Some (?h2 @ replicate (36 + length pcm) 0)"
    using uint32_field [of "?h1" 4 "36 + length pcm" "(of_nat (36 + length pcm))"] by (simp add: lens)
  have s3: "writeString (?h2 @ replicate (36 + length pcm) 0) 8 ''WAVE'' = Some (?h3 @ replicate (32 + length pcm) 0)"
    using string_field [of "?h2" 8 "''WAVE''" "32 + length pcm"] by (simp add: lens)
  have s4: "writeString (?h3 @ replicate (32 + length pcm) 0) 12 ''fmt '' = Some (?h4 @ replicate (28 + length pcm) 0)"
    using string_field [of "?h3" 12 "''fmt ''" "28 + length pcm"] by (simp add: lens)
  have s5: "setUint32 (?h4 @ replicate (28 + length pcm) 0) 16 16 = Some (?h5 @ replicate (24 + length pcm) 0)"
    using uint32_field [of "?h4" 16 "24 + length pcm" "16"] by (simp add: lens)
  have s6: "setUint16 (?h5 @ replicate (24 + length pcm) 0) 20 1 = Some (?h6 @ replicate (22 + length pcm) 0)"
    using uint16_field [of "?h5" 20 "22 + length pcm" "1"] by (simp add: lens)
  have s7: "setUint16 (?h6 @ replicate (22 + length pcm) 0) 22 nc = Some (?h7 @ replicate (20 + length pcm) 0)"
    using uint16_field [of "?h6" 22 "20 + length pcm" "nc"] by (simp add: lens)
  have s8: "setUint32 (?h7 @ replicate (20 + length pcm) 0) 24 rate = Some (?h8 @ replicate (16 + length pcm) 0)"
    using uint32_field [of "?h7" 24 "16 + length pcm" "rate"] by (simp add: lens)
  have s9: "setUint32 (?h8 @ replicate (16 + length pcm) 0) 28 (rate * nc * (bps / 8)) = Some (?h9 @ replicate (12 + length pcm) 0)"
    using uint32_field [of "?h8" 28 "12 + length pcm" "(rate * nc * (bps / 8))"] by (simp add: lens)
  have s10: "setUint16 (?h9 @ replicate (12 + length pcm) 0) 32 (nc * (bps / 8)) = Some (?h10 @ replicate (10 + length pcm) 0)"
    using uint16_field [of "?h9" 32 "10 + length pcm" "(nc * (bps / 8))"] by (simp add: lens)
  have s11: "setUint16 (?h10 @ replicate (10 + length pcm) 0) 34 bps = Some (?h11 @ replicate (8 + length pcm) 0)"
    using uint16_field [of "?h10" 34 "8 + length pcm" "bps"] by (simp add: lens)
  have s12: "writeString (?h11 @ replicate (8 + length pcm) 0) 36 ''data'' = Some (?h12 @ replicate (4 + length pcm) 0)"
    using string_field [of "?h11" 36 "''data''" "4 + length pcm"] by (simp add: lens)
  have s13: "setUint32 (?h12 @ replicate (4 + length pcm) 0) 40 (of_nat (length pcm)) = Some (?h13 @ replicate (length pcm) 0)"
    using uint32_field [of "?h12" 40 "length pcm" "(of_nat (length pcm))"] by (simp add: lens)
  have s14: "write_pcm (?h13 @ replicate (length pcm) 0) pcm 0 = Some (?h13 @ pcm)"
    using pcm_field [of "?h13" pcm] by (simp add: lens)
  have h: "?h13 = wav_header (length pcm) rate nc bps"
    by (simp only: wav_header_def append_assoc)
  show ?thesis
    unfolding createWavBlob_def Let_def
    by (simp only: bind.bind_lunit s1 s2 s3 s4 s5 s6 s7 s8 s9 s10 s11 s12 s13 h s14 [unfolded h])
qed

lemma ToUint_numeral: "ToUint k (numeral n) = numeral n mod 2 ^ k"
  using ToUint_of_nat [of k "numeral n"] by simp

lemma ToUint_one: "ToUint k 1 = 1 mod 2 ^ k"
  using ToUint_of_nat [of k 1] by simp

lemma wav_header_length: "length (wav_header n rate nc bps) = 44"
  by (simp add: wav_header_def lens)

lemma wav_header_24000:
  "wav_header 10 24000 1 16
     = [82, 73, 70, 70, 46, 0, 0, 0, 87, 65, 86, 69, 102, 109, 116, 32, 16, 0, 0, 0,
        1, 0, 1, 0, 192, 93, 0, 0, 128, 187, 0, 0, 2, 0, 16, 0,
        100, 97, 116, 97, 10, 0, 0, 0]"
  by (simp add: wav_header_def ascii_def le32_def le16_def ToUint_numeral ToUint_one)

text \<open>
  Claim C7. For every payload and all parameters, \<open>createWavBlob\<close> throws nothing and
  returns the 44 bytes of the header, laid out as the specification lists the fields, each
  number little-endian, followed by the payload unchanged. For a payload of 10 bytes at
  24000 Hz, one channel, 16 bits, the blob has 54 bytes: "RIFF" at 0, "WAVE" at 8, the
  value 1 at 20 and at 22, 24000 at 24, "data" at 36 and 10 at 40.
\<close>

theorem createWavBlob_layout:
  "createWavBlob pcm rate nc bps = Some (wav_header (length pcm) rate nc bps @ pcm) \<and>
   length (wav_header (length pcm) rate nc bps) = 44 \<and>
   (length pcm = 10 \<longrightarrow>
      (\<exists>blob. createWavBlob pcm 24000 1 16 = Some blob \<and> length blob = 54 \<and>
         take 4 blob = [82, 73, 70, 70] \<and>
         take 4 (drop 8 blob) = [87, 65, 86, 69] \<and>
         take 2 (drop 20 blob) = [1, 0] \<and>
         take 2 (drop 22 blob) = [1, 0] \<and>
         take 4 (drop 24 blob) = [192, 93, 0, 0] \<and>
         take 4 (drop 36 blob) = [100, 97, 116, 97] \<and>
         take 4 (drop 40 blob) = [10, 0, 0, 0] \<and>
         drop 44 blob = pcm))"
proof (intro conjI impI)
  show "createWavBlob pcm rate nc bps = Some (wav_header (length pcm) rate nc bps @ pcm)"
    by (rule createWavBlob_eq)
  show "length (wav_header (length pcm) rate nc bps) = 44"
    by (rule wav_header_length)
next
  assume l: "length pcm = 10"
  let ?blob = "wav_header 10 24000 1 16 @ pcm"
  have "createWavBlob pcm 24000 1 16 = Some ?blob"
    using createWavBlob_eq [of pcm 24000 1 16] by (simp only: l)
  moreover have "length ?blob = 54" using l by (simp add: wav_header_length)
  moreover have "take 4 ?blob = [82, 73, 70, 70]"
    "take 4 (drop 8 ?blob) = [87, 65, 86, 69]"
    "take 2 (drop 20 ?blob) = [1, 0]"
    "take 2 (drop 22 ?blob) = [1, 0]"
    "take 4 (drop 24 ?blob) = [192, 93, 0, 0]"
    "take 4 (drop 36 ?blob) = [100, 97, 116, 97]"
    "take 4 (drop 40 ?blob) = [10, 0, 0, 0]"
    "drop 44 ?blob = pcm"
    by (simp_all add: wav_header_24000)
  ultimately show "\<exists>blob. createWavBlob pcm 24000 1 16 = Some blob \<and> length blob = 54 \<and>
         take 4 blob = [82, 73, 70, 70] \<and>
         take 4 (drop 8 blob) = [87, 65, 86, 69] \<and>
         take 2 (drop 20 blob) = [1, 0] \<and>
         take 2 (drop 22 blob) = [1, 0] \<and>
         take 4 (drop 24 blob) = [192, 93, 0, 0] \<and>
         take 4 (drop 36 blob) = [100, 97, 116, 97] \<and>
         take 4 (drop 40 blob) = [10, 0, 0, 0] \<and>
         drop 44 blob = pcm"
    by blast
qed

theorem createWavBlob_layout_witness:
  "createWavBlob [1, 2, 3, 4, 5, 6, 7, 8, 9, 10] 24000 1 16
     = Some [82, 73, 70, 70, 46, 0, 0, 0, 87, 65, 86, 69, 102, 109, 116, 32, 16, 0, 0, 0,
             1, 0, 1, 0, 192, 93, 0, 0, 128, 187, 0, 0, 2, 0, 16, 0,
             100, 97, 116, 97, 10, 0, 0, 0, 1, 2, 3, 4, 5, 6, 7, 8, 9, 10] \<and>
   length [1, 2, 3, 4, 5, 6, 7, 8, 9, 10 :: byte] = 10 \<and>
   (\<exists>blob. createWavBlob [1, 2, 3, 4, 5, 6, 7, 8, 9, 10] 24000 1 16 = Some blob \<and>
      length blob = 54 \<and> take 4 (drop 24 blob) = [192, 93, 0, 0] \<and>
      drop 44 blob = [1, 2, 3, 4, 5, 6, 7, 8, 9, 10])"
proof -
  let ?pcm = "[1, 2, 3, 4, 5, 6, 7, 8, 9, 10] :: byte list"
  have l: "length ?pcm = 10" by simp
  note t = createWavBlob_layout [of ?pcm 24000 1 16]
  have "createWavBlob ?pcm 24000 1 16 = Some (wav_header (length ?pcm) 24000 1 16 @ ?pcm)"
    using t by (rule conjunct1)
  then have "createWavBlob ?pcm 24000 1 16 = Some (wav_header 10 24000 1 16 @ ?pcm)"
    by (simp only: l)
  then have a: "createWavBlob ?pcm 24000 1 16
     = Some [82, 73, 70, 70, 46, 0, 0, 0, 87, 65, 86, 69, 102, 109, 116, 32, 16, 0, 0, 0,
             1, 0, 1, 0, 192, 93, 0, 0, 128, 187, 0, 0, 2, 0, 16, 0,
             100, 97, 116, 97, 10, 0, 0, 0, 1, 2, 3, 4, 5, 6, 7, 8, 9, 10]"
    by (simp only: wav_header_24000 append.simps)
  from t [THEN conjunct2, THEN conjunct2, THEN mp, OF l] obtain blob where
    b: "createWavBlob ?pcm 24000 1 16 = Some blob" "length blob = 54"
      "take 4 (drop 24 blob) = [192, 93, 0, 0]" "drop 44 blob = ?pcm"
    by blast
  have c: "\<exists>blob. createWavBlob ?pcm 24000 1 16 = Some blob \<and>
      length blob = 54 \<and> take 4 (drop 24 blob) = [192, 93, 0, 0] \<and> drop 44 blob = ?pcm"
    by (intro exI [of _ blob] conjI) (rule b)+
  from a l c show ?thesis by (intro conjI)
qed

section \<open>The callbacks of the panel, step by step\<close>

lemma started_append: "started (xs @ ys) = started xs @ started ys"
  by (induction xs rule: started.induct) simp_all

lemma stopped_append: "stopped (xs @ ys) = stopped xs @ stopped ys"
  by (induction xs rule: stopped.induct) simp_all

lemma closed_contexts_append:
  "closed_contexts (xs @ ys) = closed_contexts xs @ closed_contexts ys"
  by (induction xs rule: closed_contexts.induct) simp_all

lemma stopped_SourceStop: "stopped (map SourceStop xs) = xs"
  by (induction xs) simp_all

lemma started_SourceStop: "started (map SourceStop xs) = []"
  by (induction xs) simp_all

lemma fold_stop:
  "fold (\<lambda>source. call (SourceStop source)) xs s = s\<lparr>calls := calls s @ map SourceStop xs\<rparr>"
  by (induction xs arbitrary: s) (simp_all add: call_def)

lemma interrupt_eq:
  "interrupt s = s\<lparr>calls := calls s @ map SourceStop (audioSourcesRef s),
                   audioSourcesRef := [], nextStartTimeRef := 0\<rparr>"
  by (simp add: interrupt_def fold_stop Let_def)

lemma schedule_eq:
  "schedule now b s
     = s\<lparr>nextStartTimeRef := max (nextStartTimeRef s) now + duration b,
         created := created s + 1,
         calls := calls s @ [SourceStart \<lparr>source_id = created s, buffer = b\<rparr>
                                (max (nextStartTimeRef s) now)],
         audioSourcesRef := audioSourcesRef s @ [\<lparr>source_id = created s, buffer = b\<rparr>]\<rparr>"
  by (simp add: schedule_def call_def Let_def)

lemma accumulate_frame:
  "nextStartTimeRef (accumulate msg s) = nextStartTimeRef s"
  "calls (accumulate msg s) = calls s"
  "audioSourcesRef (accumulate msg s) = audioSourcesRef s"
  "created (accumulate msg s) = created s"
  "outputAudioContextRef (accumulate msg s) = outputAudioContextRef s"
  "transcription (accumulate msg s) = transcription s"
  by (simp_all add: accumulate_def Let_def split: option.splits)

lemma complete_turn_frame:
  "nextStartTimeRef (complete_turn r msg s) = nextStartTimeRef s"
  "calls (complete_turn r msg s) = calls s"
  "audioSourcesRef (complete_turn r msg s) = audioSourcesRef s"
  "created (complete_turn r msg s) = created s"
  "outputAudioContextRef (complete_turn r msg s) = outputAudioContextRef s"
  by (simp_all add: complete_turn_def)

lemma play_audio_frame:
  assumes "play_audio now msg s = Inr s'"
  shows "set (audioSourcesRef s) \<subseteq> set (audioSourcesRef s')"
    and "stopped (calls s') = stopped (calls s)"
  using assms
  by (auto simp: play_audio_def schedule_eq stopped_append
           split: option.splits if_splits sum.splits)

lemma onmessage_audio:
  assumes "audioData msg = Some data" and "data \<noteq> []"
    and "outputAudioContextRef s \<noteq> None"
    and "decode data = Inr bytes" and "decodeAudioData (whole bytes) 24000 1 = Inr b"
  shows "onmessage r now msg s
           = Inr ((if interrupted msg then interrupt else id)
                    (schedule now b (complete_turn r msg (accumulate msg s))))"
  using assms
  by (simp add: onmessage_def play_audio_def accumulate_frame complete_turn_frame)

lemma onmessage_no_audio:
  assumes "audioData msg = None"
  shows "onmessage r now msg s
           = Inr ((if interrupted msg then interrupt else id)
                    (complete_turn r msg (accumulate msg s)))"
  using assms by (simp add: onmessage_def play_audio_def)


lemma decode_2: "decode (map of_char ''AAA='') = Inr [0, 0]"
  by code_simp

lemma decode_6: "decode (map of_char ''AAAAAAAA'') = Inr [0, 0, 0, 0, 0, 0]"
  by code_simp

lemma silence_1: "decodeAudioData (whole [0, 0]) 24000 1 = Inr (silence 1)"
  using decodeAudioData_frames [of "[0, 0]" 1 24000]
  by (simp add: deinterleaved_def silence_def)

lemma silence_3: "decodeAudioData (whole [0, 0, 0, 0, 0, 0]) 24000 1 = Inr (silence 3)"
  using decodeAudioData_frames [of "[0, 0, 0, 0, 0, 0]" 1 24000]
  by (simp add: deinterleaved_def silence_def numeral_3_eq_3)

lemma duration_silence: "duration (silence n) = of_nat n / 24000"
  by (simp add: duration_def silence_def)

lemma live_eq:
  "live = \<lparr>isLive = True, error = None, transcription = [],
            currentTurn = \<lparr>user = [], model = []\<rparr>,
            sessionPromiseRef = Some (Fulfilled 5), inputAudioContextRef = Some 2,
            outputAudioContextRef = Some 3, mediaStreamRef = Some 1,
            scriptProcessorRef = Some 4, nextStartTimeRef = 0,
            audioSourcesRef = [], created = 0, calls = []\<rparr>"
  by (simp add: live_def onopen_def startConversation_def render_def initial_def browser_def)

section \<open>Interruption\<close>

text \<open>
  Claim C2. The interruption block calls \<open>stop\<close> on every source of the set, in order,
  leaves the set empty and the cursor at 0, and starts no source. A message that carries
  the interruption flag and whose handling returns leaves the set empty and the cursor at
  0, with every source that was in the set stopped; when the message carries no audio the
  handling always returns. The next buffer scheduled after the interruption, at a clock
  time \<open>now' \<ge> 0\<close>, starts at \<open>now'\<close>, whatever the cursor was before.
\<close>

theorem interruption_clears:
  "audioSourcesRef (interrupt s) = [] \<and> nextStartTimeRef (interrupt s) = 0 \<and>
   stopped (calls (interrupt s)) = stopped (calls s) @ audioSourcesRef s \<and>
   started (calls (interrupt s)) = started (calls s) \<and>
   (interrupted msg \<and> onmessage r now msg s = Inr s' \<longrightarrow>
      audioSourcesRef s' = [] \<and> nextStartTimeRef s' = 0 \<and>
      set (audioSourcesRef s) \<subseteq> set (stopped (calls s'))) \<and>
   (interrupted msg \<and> audioData msg = None \<longrightarrow>
      onmessage r now msg s = Inr (interrupt (complete_turn r msg (accumulate msg s)))) \<and>
   (0 \<le> now' \<longrightarrow>
      started (calls (schedule now' b (interrupt s)))
        = started (calls s) @ [(\<lparr>source_id = created s, buffer = b\<rparr>, now')])"
proof (intro conjI impI)
  show "audioSourcesRef (interrupt s) = []" "nextStartTimeRef (interrupt s) = 0"
    by (simp_all add: interrupt_eq)
  show "stopped (calls (interrupt s)) = stopped (calls s) @ audioSourcesRef s"
    by (simp add: interrupt_eq stopped_append stopped_SourceStop)
  show "started (calls (interrupt s)) = started (calls s)"
    by (simp add: interrupt_eq started_append started_SourceStop)
next
  assume a: "interrupted msg \<and> onmessage r now msg s = Inr s'"
  then obtain p where p: "play_audio now msg (complete_turn r msg (accumulate msg s)) = Inr p"
    and s': "s' = interrupt p"
    by (auto simp: onmessage_def split: sum.splits)
  show "audioSourcesRef s' = []" "nextStartTimeRef s' = 0"
    by (simp_all add: s' interrupt_eq)
  have "set (audioSourcesRef s) \<subseteq> set (audioSourcesRef p)"
    using play_audio_frame(1) [OF p] by (simp add: accumulate_frame complete_turn_frame)
  then show "set (audioSourcesRef s) \<subseteq> set (stopped (calls s'))"
    by (auto simp: s' interrupt_eq stopped_append stopped_SourceStop)
next
  assume "interrupted msg \<and> audioData msg = None"
  then show "onmessage r now msg s = Inr (interrupt (complete_turn r msg (accumulate msg s)))"
    by (simp add: onmessage_no_audio)
next
  assume "0 \<le> now'"
  then show "started (calls (schedule now' b (interrupt s)))
        = started (calls s) @ [(\<lparr>source_id = created s, buffer = b\<rparr>, now')]"
    by (simp add: schedule_eq interrupt_eq started_append started_SourceStop max_def)
qed

theorem interruption_clears_witness:
  "audioSourcesRef (schedule (1 / 24000) (silence 3) (schedule 0 (silence 3) live))
     = [\<lparr>source_id = 0, buffer = silence 3\<rparr>, \<lparr>source_id = 1, buffer = silence 3\<rparr>] \<and>
   nextStartTimeRef (schedule (1 / 24000) (silence 3) (schedule 0 (silence 3) live)) = 1 / 4000 \<and>
   (\<exists>s'. onmessage (render initial) (1 / 12000) (empty_message\<lparr>interrupted := True\<rparr>)
            (schedule (1 / 24000) (silence 3) (schedule 0 (silence 3) live)) = Inr s' \<and>
      audioSourcesRef s' = [] \<and> nextStartTimeRef s' = 0 \<and>
      stopped (calls s')
        = [\<lparr>source_id = 0, buffer = silence 3\<rparr>, \<lparr>source_id = 1, buffer = silence 3\<rparr>] \<and>
      map snd (started (calls (schedule (1 / 6000) (silence 1) s'))) = [0, 1 / 8000, 1 / 6000])"
proof -
  define s where "s = schedule (1 / 24000) (silence 3) (schedule 0 (silence 3) live)"
  define m where "m = empty_message\<lparr>interrupted := True\<rparr>"
  have p: "complete_turn (render initial) m (accumulate m s) = s"
    by (simp add: complete_turn_def accumulate_def empty_message_def m_def)
  have m: "interrupted m \<and> audioData m = None"
    by (simp add: empty_message_def m_def)
  have n: "(0::rat) \<le> 1 / 6000" by simp
  note t = interruption_clears [of s m "render initial" "1 / 12000" "interrupt s"
      "1 / 6000" "silence 1"]
  note t3 = t [THEN conjunct2, THEN conjunct2, THEN conjunct1]
  note t5 = t [THEN conjunct2, THEN conjunct2, THEN conjunct2, THEN conjunct2,
      THEN conjunct1, THEN mp]
  note t6 = t [THEN conjunct2, THEN conjunct2, THEN conjunct2, THEN conjunct2,
      THEN conjunct2, THEN conjunct1, THEN mp, OF m]
  note t7 = t [THEN conjunct2, THEN conjunct2, THEN conjunct2, THEN conjunct2,
      THEN conjunct2, THEN conjunct2, THEN mp, OF n]
  have run: "onmessage (render initial) (1 / 12000) m s = Inr (interrupt s)"
    using t6 by (simp only: p)
  have "interrupted m \<and> onmessage (render initial) (1 / 12000) m s = Inr (interrupt s)"
    using m run by simp
  note after = t5 [OF this]
  have empty: "audioSourcesRef (interrupt s) = []" using after by (rule conjunct1)
  have zero: "nextStartTimeRef (interrupt s) = 0"
    using after by (rule conjunct2 [THEN conjunct1])
  have active: "audioSourcesRef s
     = [\<lparr>source_id = 0, buffer = silence 3\<rparr>, \<lparr>source_id = 1, buffer = silence 3\<rparr>]"
    by (simp add: s_def schedule_eq live_eq)
  have cur: "nextStartTimeRef s = 1 / 4000"
    by (simp add: s_def schedule_eq live_eq duration_silence)
  have st: "stopped (calls s) = []" "map snd (started (calls s)) = [0, 1 / 8000]"
    by (simp_all add: s_def schedule_eq live_eq duration_silence)
  have a: "stopped (calls (interrupt s))
        = [\<lparr>source_id = 0, buffer = silence 3\<rparr>, \<lparr>source_id = 1, buffer = silence 3\<rparr>]"
    using t3 by (simp only: st active append_Nil)
  have b: "map snd (started (calls (schedule (1 / 6000) (silence 1) (interrupt s))))
        = [0, 1 / 8000, 1 / 6000]"
    using st(2) by (simp only: t7 map_append) simp
  show ?thesis
    unfolding s_def [symmetric] m_def [symmetric]
    by (intro conjI exI [of _ "interrupt s"]) (rule active cur run empty zero a b)+
qed

section \<open>The playback scheduler\<close>

lemma onmessage_schedules:
  assumes "audioData msg = Some data \<and> data \<noteq> [] \<and> decode data = Inr bytes \<and>
           decodeAudioData (whole bytes) 24000 1 = Inr b \<and> \<not> interrupted msg"
    and "outputAudioContextRef s \<noteq> None"
  shows "\<exists>s'. onmessage r now msg s = Inr s' \<and>
           started (calls s')
             = started (calls s)
               @ [(\<lparr>source_id = created s, buffer = b\<rparr>, max (nextStartTimeRef s) now)] \<and>
           nextStartTimeRef s' = max (nextStartTimeRef s) now + duration b \<and>
           audioSourcesRef s' = audioSourcesRef s @ [\<lparr>source_id = created s, buffer = b\<rparr>] \<and>
           outputAudioContextRef s' = outputAudioContextRef s"
proof -
  let ?p = "complete_turn r msg (accumulate msg s)"
  have run: "onmessage r now msg s = Inr (schedule now b ?p)"
    using assms onmessage_audio [of msg data s bytes b r now] by simp
  have "started (calls (schedule now b ?p))
           = started (calls s)
             @ [(\<lparr>source_id = created s, buffer = b\<rparr>, max (nextStartTimeRef s) now)]"
    "nextStartTimeRef (schedule now b ?p) = max (nextStartTimeRef s) now + duration b"
    "audioSourcesRef (schedule now b ?p)
       = audioSourcesRef s @ [\<lparr>source_id = created s, buffer = b\<rparr>]"
    "outputAudioContextRef (schedule now b ?p) = outputAudioContextRef s"
    by (simp_all add: schedule_eq started_append accumulate_frame complete_turn_frame)
  with run show ?thesis
    by (intro exI [of _ "schedule now b ?p"] conjI)
qed

text \<open>
  Claim C1, as amended. A message whose audio decodes to a buffer \<open>b1\<close> is handled without
  error: \<open>source.start\<close> is called with \<open>max(cursor, now)\<close>, the cursor becomes that
  start time plus the duration of \<open>b1\<close>, and the source joins the set. For three such
  messages handled in sequence at the clock times \<open>t0\<close>, \<open>t2\<close>, \<open>t3\<close>, on a scheduler whose
  cursor is not ahead of \<open>t0\<close>, the start times are \<open>t0\<close>, \<open>t0 + d1\<close> and
  \<open>t0 + d1 + d2\<close>, provided the second chunk arrives no later than \<open>t0 + d1\<close> and the
  third no later than \<open>t0 + d1 + d2\<close>.
\<close>

theorem schedule_max_rule:
  assumes "audioData m1 = Some data1 \<and> data1 \<noteq> [] \<and> decode data1 = Inr bytes1 \<and>
           decodeAudioData (whole bytes1) 24000 1 = Inr b1 \<and> \<not> interrupted m1"
    and "outputAudioContextRef s \<noteq> None"
  shows "(\<exists>s'. onmessage r now m1 s = Inr s' \<and>
            started (calls s')
              = started (calls s)
                @ [(\<lparr>source_id = created s, buffer = b1\<rparr>, max (nextStartTimeRef s) now)] \<and>
            nextStartTimeRef s' = max (nextStartTimeRef s) now + duration b1 \<and>
            audioSourcesRef s' = audioSourcesRef s @ [\<lparr>source_id = created s, buffer = b1\<rparr>]) \<and>
         (audioData m2 = Some data2 \<and> data2 \<noteq> [] \<and> decode data2 = Inr bytes2 \<and>
          decodeAudioData (whole bytes2) 24000 1 = Inr b2 \<and> \<not> interrupted m2 \<and>
          audioData m3 = Some data3 \<and> data3 \<noteq> [] \<and> decode data3 = Inr bytes3 \<and>
          decodeAudioData (whole bytes3) 24000 1 = Inr b3 \<and> \<not> interrupted m3 \<and>
          nextStartTimeRef s \<le> t0 \<and> t2 \<le> t0 + duration b1 \<and>
          t3 \<le> t0 + duration b1 + duration b2 \<longrightarrow>
            (\<exists>s1 s2 s3. onmessage r t0 m1 s = Inr s1 \<and> onmessage r t2 m2 s1 = Inr s2 \<and>
               onmessage r t3 m3 s2 = Inr s3 \<and>
               map snd (started (calls s3))
                 = map snd (started (calls s))
                   @ [t0, t0 + duration b1, t0 + duration b1 + duration b2]))"
proof (intro conjI impI)
  show "\<exists>s'. onmessage r now m1 s = Inr s' \<and>
            started (calls s')
              = started (calls s)
                @ [(\<lparr>source_id = created s, buffer = b1\<rparr>, max (nextStartTimeRef s) now)] \<and>
            nextStartTimeRef s' = max (nextStartTimeRef s) now + duration b1 \<and>
            audioSourcesRef s' = audioSourcesRef s @ [\<lparr>source_id = created s, buffer = b1\<rparr>]"
    using onmessage_schedules [OF assms, of r now] by blast
next
  assume h: "audioData m2 = Some data2 \<and> data2 \<noteq> [] \<and> decode data2 = Inr bytes2 \<and>
          decodeAudioData (whole bytes2) 24000 1 = Inr b2 \<and> \<not> interrupted m2 \<and>
          audioData m3 = Some data3 \<and> data3 \<noteq> [] \<and> decode data3 = Inr bytes3 \<and>
          decodeAudioData (whole bytes3) 24000 1 = Inr b3 \<and> \<not> interrupted m3 \<and>
          nextStartTimeRef s \<le> t0 \<and> t2 \<le> t0 + duration b1 \<and>
          t3 \<le> t0 + duration b1 + duration b2"
  then have h2: "audioData m2 = Some data2 \<and> data2 \<noteq> [] \<and> decode data2 = Inr bytes2 \<and>
          decodeAudioData (whole bytes2) 24000 1 = Inr b2 \<and> \<not> interrupted m2"
    and h3: "audioData m3 = Some data3 \<and> data3 \<noteq> [] \<and> decode data3 = Inr bytes3 \<and>
          decodeAudioData (whole bytes3) 24000 1 = Inr b3 \<and> \<not> interrupted m3"
    and t: "nextStartTimeRef s \<le> t0" "t2 \<le> t0 + duration b1"
      "t3 \<le> t0 + duration b1 + duration b2"
    by simp_all
  from onmessage_schedules [OF assms, of r t0] obtain s1 where
    s1: "onmessage r t0 m1 s = Inr s1"
      "started (calls s1)
         = started (calls s)
           @ [(\<lparr>source_id = created s, buffer = b1\<rparr>, max (nextStartTimeRef s) t0)]"
      "nextStartTimeRef s1 = max (nextStartTimeRef s) t0 + duration b1"
      "outputAudioContextRef s1 = outputAudioContextRef s"
    by blast
  have c1: "outputAudioContextRef s1 \<noteq> None" using s1(4) assms(2) by simp
  from onmessage_schedules [OF h2 c1, of r t2] obtain s2 where
    s2: "onmessage r t2 m2 s1 = Inr s2"
      "started (calls s2)
         = started (calls s1)
           @ [(\<lparr>source_id = created s1, buffer = b2\<rparr>, max (nextStartTimeRef s1) t2)]"
      "nextStartTimeRef s2 = max (nextStartTimeRef s1) t2 + duration b2"
      "outputAudioContextRef s2 = outputAudioContextRef s1"
    by blast
  have c2: "outputAudioContextRef s2 \<noteq> None" using s2(4) c1 by simp
  from onmessage_schedules [OF h3 c2, of r t3] obtain s3 where
    s3: "onmessage r t3 m3 s2 = Inr s3"
      "started (calls s3)
         = started (calls s2)
           @ [(\<lparr>source_id = created s2, buffer = b3\<rparr>, max (nextStartTimeRef s2) t3)]"
    by blast
  have n1: "nextStartTimeRef s1 = t0 + duration b1"
    using s1(3) t(1) by (simp add: max_def)
  have n2: "nextStartTimeRef s2 = t0 + duration b1 + duration b2"
    using s2(3) t(2) by (simp add: n1 max_def)
  have "map snd (started (calls s3))
          = map snd (started (calls s)) @ [t0, t0 + duration b1, t0 + duration b1 + duration b2]"
    using t by (simp add: s3(2) s2(2) s1(2) n1 n2 max_def)
  with s1(1) s2(1) s3(1)
  show "\<exists>s1 s2 s3. onmessage r t0 m1 s = Inr s1 \<and> onmessage r t2 m2 s1 = Inr s2 \<and>
               onmessage r t3 m3 s2 = Inr s3 \<and>
               map snd (started (calls s3))
                 = map snd (started (calls s))
                   @ [t0, t0 + duration b1, t0 + duration b1 + duration b2]"
    by blast
qed

lemma audio_message_fields:
  "audioData (audio_message base64) = Some (map of_char base64)"
  "\<not> interrupted (audio_message base64)"
  "\<not> turnComplete (audio_message base64)"
  "inputTranscription (audio_message base64) = None"
  "outputTranscription (audio_message base64) = None"
  by (simp_all add: audio_message_def empty_message_def)

lemma onmessage_silence_1:
  assumes "outputAudioContextRef s \<noteq> None"
  shows "onmessage r now (audio_message ''AAA='') s = Inr (schedule now (silence 1) s)"
  using assms onmessage_audio [of "audio_message ''AAA=''" "map of_char ''AAA=''" s "[0, 0]"
      "silence 1" r now] decode_2 silence_1
  by (simp add: audio_message_fields accumulate_def complete_turn_def)

lemma onmessage_silence_3:
  assumes "outputAudioContextRef s \<noteq> None"
  shows "onmessage r now (audio_message ''AAAAAAAA'') s = Inr (schedule now (silence 3) s)"
  using assms onmessage_audio [of "audio_message ''AAAAAAAA''" "map of_char ''AAAAAAAA''" s
      "[0, 0, 0, 0, 0, 0]" "silence 3" r now] decode_6 silence_3
  by (simp add: audio_message_fields accumulate_def complete_turn_def)

lemma schedule_context: "outputAudioContextRef (schedule now b s) = outputAudioContextRef s"
  by (simp add: schedule_eq)

text \<open>
  The claim as stated fails: on a fresh session, chunks of 1, 3 and 1 frames arrive at the
  clock times 0, 2/24000 and 3/24000, all before the third start time (5/24000, and
  4/24000 by the formula of the claim). The second chunk arrives after the first buffer
  has ended, so it starts at 2/24000, not at \<open>start1 + d1 = 1/24000\<close>.
\<close>

theorem schedule_late_chunk_counterexample:
  "\<exists>s1 s2 s3.
     nextStartTimeRef live = 0 \<and>
     onmessage (render initial) 0 (audio_message ''AAA='') live = Inr s1 \<and>
     onmessage (render initial) (1 / 12000) (audio_message ''AAAAAAAA'') s1 = Inr s2 \<and>
     onmessage (render initial) (1 / 8000) (audio_message ''AAA='') s2 = Inr s3 \<and>
     map (\<lambda>(source, t). duration (buffer source)) (started (calls s3))
       = [1 / 24000, 1 / 8000, 1 / 24000] \<and>
     map snd (started (calls s3)) = [0, 1 / 12000, 5 / 24000] \<and>
     (1 / 12000 :: rat) \<noteq> 0 + 1 / 24000 \<and>
     (1 / 8000 :: rat) < 0 + 1 / 24000 + 1 / 8000 \<and> (1 / 8000 :: rat) < 5 / 24000"
proof -
  define s1 where "s1 = schedule 0 (silence 1) live"
  define s2 where "s2 = schedule (1 / 12000) (silence 3) s1"
  define s3 where "s3 = schedule (1 / 8000) (silence 1) s2"
  have c: "outputAudioContextRef live \<noteq> None" "outputAudioContextRef s1 \<noteq> None"
    "outputAudioContextRef s2 \<noteq> None"
    by (simp_all add: s1_def s2_def schedule_context live_eq)
  have r1: "onmessage (render initial) 0 (audio_message ''AAA='') live = Inr s1"
    unfolding s1_def by (rule onmessage_silence_1 [OF c(1)])
  have r2: "onmessage (render initial) (1 / 12000) (audio_message ''AAAAAAAA'') s1 = Inr s2"
    unfolding s2_def by (rule onmessage_silence_3 [OF c(2)])
  have r3: "onmessage (render initial) (1 / 8000) (audio_message ''AAA='') s2 = Inr s3"
    unfolding s3_def by (rule onmessage_silence_1 [OF c(3)])
  have d: "map (\<lambda>(source, t). duration (buffer source)) (started (calls s3))
       = [1 / 24000, 1 / 8000, 1 / 24000]"
    by (simp add: s1_def s2_def s3_def schedule_eq live_eq duration_silence)
  have t: "map snd (started (calls s3)) = [0, 1 / 12000, 5 / 24000]"
    by (simp add: s1_def s2_def s3_def schedule_eq live_eq duration_silence)
  have z: "nextStartTimeRef live = 0" by (simp add: live_eq)
  have n: "(1 / 12000 :: rat) \<noteq> 0 + 1 / 24000"
    "(1 / 8000 :: rat) < 0 + 1 / 24000 + 1 / 8000" "(1 / 8000 :: rat) < 5 / 24000"
    by simp_all
  show ?thesis
    by (intro exI [of _ s1] exI [of _ s2] exI [of _ s3] conjI) (rule z r1 r2 r3 d t n)+
qed

theorem schedule_max_rule_witness:
  "(\<exists>s'. onmessage (render initial) 5 (audio_message ''AAA='') live = Inr s' \<and>
      started (calls s') = [(\<lparr>source_id = 0, buffer = silence 1\<rparr>, 5)] \<and>
      nextStartTimeRef s' = 5 + 1 / 24000 \<and>
      audioSourcesRef s' = [\<lparr>source_id = 0, buffer = silence 1\<rparr>]) \<and>
   (\<exists>s1 s2 s3.
      onmessage (render initial) 0 (audio_message ''AAA='') live = Inr s1 \<and>
      onmessage (render initial) (1 / 24000) (audio_message ''AAAAAAAA'') s1 = Inr s2 \<and>
      onmessage (render initial) (1 / 8000) (audio_message ''AAA='') s2 = Inr s3 \<and>
      map snd (started (calls s3)) = [0, 1 / 24000, 1 / 6000])"
proof -
  have h1: "audioData (audio_message ''AAA='') = Some (map of_char ''AAA='') \<and>
    map of_char ''AAA='' \<noteq> ([] :: nat list) \<and>
    decode (map of_char ''AAA='') = Inr [0, 0] \<and> decodeAudioData (whole [0, 0]) 24000 1 = Inr (silence 1) \<and>
    \<not> interrupted (audio_message ''AAA='')"
    using decode_2 silence_1 by (simp add: audio_message_fields)
  have c: "outputAudioContextRef live \<noteq> None" by (simp add: live_eq)
  have h2: "audioData (audio_message ''AAAAAAAA'') = Some (map of_char ''AAAAAAAA'') \<and>
    map of_char ''AAAAAAAA'' \<noteq> ([] :: nat list) \<and>
    decode (map of_char ''AAAAAAAA'') = Inr [0, 0, 0, 0, 0, 0] \<and>
    decodeAudioData (whole [0, 0, 0, 0, 0, 0]) 24000 1 = Inr (silence 3) \<and>
    \<not> interrupted (audio_message ''AAAAAAAA'') \<and>
    audioData (audio_message ''AAA='') = Some (map of_char ''AAA='') \<and>
    map of_char ''AAA='' \<noteq> ([] :: nat list) \<and>
    decode (map of_char ''AAA='') = Inr [0, 0] \<and> decodeAudioData (whole [0, 0]) 24000 1 = Inr (silence 1) \<and>
    \<not> interrupted (audio_message ''AAA='') \<and>
    nextStartTimeRef live \<le> 0 \<and> 1 / 24000 \<le> 0 + duration (silence 1) \<and>
    1 / 8000 \<le> 0 + duration (silence 1) + duration (silence 3)"
    using decode_2 silence_1 decode_6 silence_3
    by (simp add: audio_message_fields live_eq duration_silence)
  note t = schedule_max_rule [OF h1 c, of "render initial" 5 "audio_message ''AAAAAAAA''"
      "map of_char ''AAAAAAAA''" "[0, 0, 0, 0, 0, 0]" "silence 3" "audio_message ''AAA=''"
      "map of_char ''AAA=''" "[0, 0]" "silence 1" 0 "1 / 24000" "1 / 8000"]
  from t [THEN conjunct1] obtain s' where
    s': "onmessage (render initial) 5 (audio_message ''AAA='') live = Inr s'"
      "started (calls s') = started (calls live)
         @ [(\<lparr>source_id = created live, buffer = silence 1\<rparr>, max (nextStartTimeRef live) 5)]"
      "nextStartTimeRef s' = max (nextStartTimeRef live) 5 + duration (silence 1)"
      "audioSourcesRef s' = audioSourcesRef live @ [\<lparr>source_id = created live, buffer = silence 1\<rparr>]"
    by blast
  have a: "\<exists>s'. onmessage (render initial) 5 (audio_message ''AAA='') live = Inr s' \<and>
      started (calls s') = [(\<lparr>source_id = 0, buffer = silence 1\<rparr>, 5)] \<and>
      nextStartTimeRef s' = 5 + 1 / 24000 \<and>
      audioSourcesRef s' = [\<lparr>source_id = 0, buffer = silence 1\<rparr>]"
  proof (intro exI [of _ s'] conjI)
    show "onmessage (render initial) 5 (audio_message ''AAA='') live = Inr s'" by (rule s'(1))
    show "started (calls s') = [(\<lparr>source_id = 0, buffer = silence 1\<rparr>, 5)]"
      using s'(2) by (simp add: live_eq)
    show "nextStartTimeRef s' = 5 + 1 / 24000"
      using s'(3) by (simp add: live_eq duration_silence)
    show "audioSourcesRef s' = [\<lparr>source_id = 0, buffer = silence 1\<rparr>]"
      using s'(4) by (simp add: live_eq)
  qed
  from t [THEN conjunct2, THEN mp, OF h2] obtain s1 s2 s3 where
    r: "onmessage (render initial) 0 (audio_message ''AAA='') live = Inr s1"
      "onmessage (render initial) (1 / 24000) (audio_message ''AAAAAAAA'') s1 = Inr s2"
      "onmessage (render initial) (1 / 8000) (audio_message ''AAA='') s2 = Inr s3"
      "map snd (started (calls s3))
         = map snd (started (calls live))
           @ [0, 0 + duration (silence 1), 0 + duration (silence 1) + duration (silence 3)]"
    by blast
  have m: "map snd (started (calls s3)) = [0, 1 / 24000, 1 / 6000]"
    using r(4) by (simp add: live_eq duration_silence)
  have b: "\<exists>s1 s2 s3.
      onmessage (render initial) 0 (audio_message ''AAA='') live = Inr s1 \<and>
      onmessage (render initial) (1 / 24000) (audio_message ''AAAAAAAA'') s1 = Inr s2 \<and>
      onmessage (render initial) (1 / 8000) (audio_message ''AAA='') s2 = Inr s3 \<and>
      map snd (started (calls s3)) = [0, 1 / 24000, 1 / 6000]"
    by (intro exI [of _ s1] exI [of _ s2] exI [of _ s3] conjI) (rule r(1) r(2) r(3) m)+
  from a b show ?thesis by (rule conjI)
qed

section \<open>Turns, teardown and start\<close>

lemma turnComplete_appends_render_turn:
  assumes "turnComplete msg" and "audioData msg = None"
  shows "\<exists>s'. onmessage r now msg s = Inr s' \<and>
           transcription s' = transcription s @ [r_currentTurn r]"
proof -
  let ?p = "complete_turn r msg (accumulate msg s)"
  have "transcription ?p = transcription s @ [r_currentTurn r]"
    using assms(1) by (simp add: complete_turn_def accumulate_frame)
  then have "transcription ((if interrupted msg then interrupt else id) ?p)
               = transcription s @ [r_currentTurn r]"
    by (simp add: interrupt_eq)
  then show ?thesis using onmessage_no_audio [OF assms(2)] by simp
qed

text \<open>
  Claim C9, on the code: the session is the first one of the component. A fragment
  ''hello'' arrives and is accumulated; the turn-complete message that follows appends an
  empty record, the \<open>currentTurn\<close> of the render that created the callback, and not the
  accumulator. A fragment in the same message as the signal is lost in the same way.
\<close>

theorem turnComplete_appends_stale_turn:
  "\<exists>s1 s2 s3.
     onmessage (render initial) 0 (empty_message\<lparr>inputTranscription := Some ''hello''\<rparr>) live
       = Inr s1 \<and>
     currentTurn s1 = \<lparr>user = ''hello'', model = []\<rparr> \<and>
     onmessage (render initial) 1 (empty_message\<lparr>turnComplete := True\<rparr>) s1 = Inr s2 \<and>
     transcription s2 = [\<lparr>user = [], model = []\<rparr>] \<and>
     currentTurn s2 = \<lparr>user = [], model = []\<rparr> \<and>
     onmessage (render initial) 2
       (empty_message\<lparr>outputTranscription := Some ''hi'', turnComplete := True\<rparr>) s2 = Inr s3 \<and>
     transcription s3 = [\<lparr>user = [], model = []\<rparr>, \<lparr>user = [], model = []\<rparr>]"
proof -
  define s1 where "s1 = live\<lparr>currentTurn := \<lparr>user = ''hello'', model = []\<rparr>\<rparr>"
  define s2 where "s2 = live\<lparr>transcription := [\<lparr>user = [], model = []\<rparr>]\<rparr>"
  define s3 where
    "s3 = live\<lparr>transcription := [\<lparr>user = [], model = []\<rparr>, \<lparr>user = [], model = []\<rparr>]\<rparr>"
  have r1: "onmessage (render initial) 0 (empty_message\<lparr>inputTranscription := Some ''hello''\<rparr>)
              live = Inr s1"
    by (simp add: onmessage_def play_audio_def complete_turn_def accumulate_def
          empty_message_def s1_def live_eq)
  have r2: "onmessage (render initial) 1 (empty_message\<lparr>turnComplete := True\<rparr>) s1 = Inr s2"
    by (simp add: onmessage_def play_audio_def complete_turn_def accumulate_def
          empty_message_def s1_def s2_def live_eq render_def initial_def)
  have r3: "onmessage (render initial) 2
       (empty_message\<lparr>outputTranscription := Some ''hi'', turnComplete := True\<rparr>) s2 = Inr s3"
    by (simp add: onmessage_def play_audio_def complete_turn_def accumulate_def
          empty_message_def s2_def s3_def live_eq render_def initial_def)
  have f: "currentTurn s1 = \<lparr>user = ''hello'', model = []\<rparr>"
    "transcription s2 = [\<lparr>user = [], model = []\<rparr>]"
    "currentTurn s2 = \<lparr>user = [], model = []\<rparr>"
    "transcription s3 = [\<lparr>user = [], model = []\<rparr>, \<lparr>user = [], model = []\<rparr>]"
    by (simp_all add: s1_def s2_def s3_def live_eq)
  show ?thesis
    by (intro exI [of _ s1] exI [of _ s2] exI [of _ s3] conjI) (rule r1 r2 r3 f)+
qed

lemma optional_call_eq:
  "optional_call method ref s
     = s\<lparr>calls := calls s @ (case ref of None \<Rightarrow> [] | Some h \<Rightarrow> [method h])\<rparr>"
  by (simp add: optional_call_def call_def split: option.splits)

lemma stopConversation_idle:
  assumes "sessionPromiseRef s = None"
  shows "stopConversation s
           = Inr (s\<lparr>calls := calls s
                       @ (case mediaStreamRef s of None \<Rightarrow> [] | Some h \<Rightarrow> [TrackStop h])
                       @ (case scriptProcessorRef s of None \<Rightarrow> [] | Some h \<Rightarrow> [Disconnect h])
                       @ (case inputAudioContextRef s of None \<Rightarrow> [] | Some h \<Rightarrow> [ContextClose h])
                       @ (case outputAudioContextRef s of None \<Rightarrow> [] | Some h \<Rightarrow> [ContextClose h])
                       @ map SourceStop (audioSourcesRef s),
                    audioSourcesRef := [], isLive := False\<rparr>)"
  using assms by (simp add: stopConversation_def optional_call_eq fold_stop Let_def)

lemma stopConversation_fulfilled:
  assumes "sessionPromiseRef s = Some (Fulfilled session)"
  shows "stopConversation s
           = Inr (s\<lparr>calls := calls s @ [SessionClose session]
                       @ (case mediaStreamRef s of None \<Rightarrow> [] | Some h \<Rightarrow> [TrackStop h])
                       @ (case scriptProcessorRef s of None \<Rightarrow> [] | Some h \<Rightarrow> [Disconnect h])
                       @ (case inputAudioContextRef s of None \<Rightarrow> [] | Some h \<Rightarrow> [ContextClose h])
                       @ (case outputAudioContextRef s of None \<Rightarrow> [] | Some h \<Rightarrow> [ContextClose h])
                       @ map SourceStop (audioSourcesRef s),
                    sessionPromiseRef := None, audioSourcesRef := [], isLive := False\<rparr>)"
  using assms by (simp add: stopConversation_def optional_call_eq fold_stop call_def Let_def)

lemma stopConversation_same_state:
  assumes "stopConversation s = Inr s1" and "stopConversation s1 = Inr s2"
  shows "s2\<lparr>calls := cs\<rparr> = s1\<lparr>calls := cs\<rparr>"
proof -
  have idle: "sessionPromiseRef s1 = None \<and> audioSourcesRef s1 = [] \<and> \<not> isLive s1"
  proof (cases "sessionPromiseRef s")
    case None
    from assms(1) None show ?thesis
      unfolding stopConversation_idle [OF None] by auto
  next
    case (Some p)
    show ?thesis
    proof (cases p)
      case (Fulfilled session)
      with Some have f: "sessionPromiseRef s = Some (Fulfilled session)" by simp
      from assms(1) show ?thesis
        unfolding stopConversation_fulfilled [OF f] by auto
    next
      case Rejected
      with Some have "stopConversation s = Inl ConnectionRejected"
        by (simp add: stopConversation_def)
      with assms(1) show ?thesis by simp
    qed
  qed
  then have n: "sessionPromiseRef s1 = None" by simp
  from assms(2) idle show ?thesis
    unfolding stopConversation_idle [OF n] by auto
qed

text \<open>
  Claim C3, on the code: a live session with one scheduled buffer is stopped twice. Both
  calls return, and the states after the first and after the second call agree on every
  field of the component; but the second call stops the track, disconnects the processor
  and closes both audio contexts again, because only \<open>sessionPromiseRef\<close> is set to
  \<^verbatim>\<open>null\<close>.
\<close>

theorem stopConversation_twice_closes_twice:
  "\<exists>s1 s2.
     stopConversation (schedule 0 (silence 1) live) = Inr s1 \<and>
     calls s1 = [SourceStart \<lparr>source_id = 0, buffer = silence 1\<rparr> 0,
                 SessionClose 5, TrackStop 1, Disconnect 4, ContextClose 2, ContextClose 3,
                 SourceStop \<lparr>source_id = 0, buffer = silence 1\<rparr>] \<and>
     stopConversation s1 = Inr s2 \<and>
     calls s2 = calls s1 @ [TrackStop 1, Disconnect 4, ContextClose 2, ContextClose 3] \<and>
     closed_contexts (calls s2) = [2, 3, 2, 3] \<and>
     s2\<lparr>calls := []\<rparr> = s1\<lparr>calls := []\<rparr> \<and>
     \<not> isLive s2 \<and> sessionPromiseRef s2 = None \<and> audioSourcesRef s2 = [] \<and>
     inputAudioContextRef s2 = Some 2 \<and> outputAudioContextRef s2 = Some 3 \<and>
     mediaStreamRef s2 = Some 1"
proof -
  define s0 where "s0 = schedule 0 (silence 1) live"
  have s0: "sessionPromiseRef s0 = Some (Fulfilled 5)"
    by (simp add: s0_def schedule_eq live_eq)
  note e1 = stopConversation_fulfilled [OF s0]
  define s1 where "s1 = projr (stopConversation s0)"
  have r1: "stopConversation s0 = Inr s1"
    unfolding s1_def e1 by simp
  have s1_eq: "s1 = live\<lparr>calls := [SourceStart \<lparr>source_id = 0, buffer = silence 1\<rparr> 0,
                 SessionClose 5, TrackStop 1, Disconnect 4, ContextClose 2, ContextClose 3,
                 SourceStop \<lparr>source_id = 0, buffer = silence 1\<rparr>],
               created := 1, nextStartTimeRef := 1 / 24000,
               sessionPromiseRef := None, isLive := False\<rparr>"
    unfolding s1_def e1 by (simp add: s0_def schedule_eq live_eq duration_silence)
  have s1: "sessionPromiseRef s1 = None"
    by (simp add: s1_eq)
  note e2 = stopConversation_idle [OF s1]
  define s2 where "s2 = projr (stopConversation s1)"
  have r2: "stopConversation s1 = Inr s2"
    unfolding s2_def e2 by simp
  have s2_eq: "s2 = s1\<lparr>calls := calls s1 @ [TrackStop 1, Disconnect 4, ContextClose 2, ContextClose 3]\<rparr>"
    unfolding s2_def e2 by (simp add: s1_eq live_eq)
  have c1: "calls s1 = [SourceStart \<lparr>source_id = 0, buffer = silence 1\<rparr> 0,
                 SessionClose 5, TrackStop 1, Disconnect 4, ContextClose 2, ContextClose 3,
                 SourceStop \<lparr>source_id = 0, buffer = silence 1\<rparr>]"
    by (simp add: s1_eq)
  have c2: "calls s2 = calls s1 @ [TrackStop 1, Disconnect 4, ContextClose 2, ContextClose 3]"
    by (simp add: s2_eq)
  have cc: "closed_contexts (calls s2) = [2, 3, 2, 3]"
    by (simp add: c2 c1)
  have same: "s2\<lparr>calls := []\<rparr> = s1\<lparr>calls := []\<rparr>"
    using r1 r2 by (rule stopConversation_same_state)
  have f2: "\<not> isLive s2" "sessionPromiseRef s2 = None" "audioSourcesRef s2 = []"
    "inputAudioContextRef s2 = Some 2" "outputAudioContextRef s2 = Some 3"
    "mediaStreamRef s2 = Some 1"
    by (simp_all add: s2_eq s1_eq live_eq)
  show ?thesis
    unfolding s0_def [symmetric]
    by (intro exI [of _ s1] exI [of _ s2] conjI) (rule r1 r2 c1 c2 cc same f2)+
qed

text \<open>
  Claim C10. When the component is live, the \<open>startConversation\<close> of its current render
  returns at once: the state, every ref and the record of browser calls are unchanged.
\<close>

theorem startConversation_live_noop:
  "isLive s \<Longrightarrow> startConversation e (render s) s = s"
  by (simp add: startConversation_def render_def)

theorem startConversation_live_noop_witness:
  "isLive live \<and> startConversation browser (render live) live = live \<and>
   startConversation browser (render initial) initial \<noteq> initial"
proof -
  have l: "isLive live" by (simp add: live_eq)
  have "startConversation browser (render initial) initial \<noteq> initial"
    by (simp add: startConversation_def render_def initial_def browser_def)
  with l startConversation_live_noop [OF l, of browser] show ?thesis by simp
qed

end
